theory Spec2Isabelle
  imports Main
begin

section \<open>JavaScript values\<close>

text \<open>
  Primitive values and object references as the modelled code compares them. An object
  is represented by its reference, so that structural equality on \<open>jsval\<close> is the
  strict equality \<open>===\<close> of the source. Numbers are integers; \<open>undefined\<close> and
  \<open>null\<close> are kept apart because \<open>===\<close> tells them apart.
\<close>

datatype jsval = JUndefined | JNull | JBool bool | JNum int | JStr string | JObj nat

text \<open>Truthiness, as used by \<open>if (x)\<close>, \<open>x || y\<close> and \<open>x && y\<close>.\<close>

fun truthy :: "jsval \<Rightarrow> bool" where
  "truthy JUndefined = False"
| "truthy JNull = False"
| "truthy (JBool b) = b"
| "truthy (JNum n) = (n \<noteq> 0)"
| "truthy (JStr s) = (s \<noteq> [])"
| "truthy (JObj r) = True"

text \<open>\<open>isObject\<close> of \<open>core/util\<close>: \<open>obj !== null && typeof obj === 'object'\<close>.\<close>

fun isObject :: "jsval \<Rightarrow> bool" where
  "isObject (JObj r) = True"
| "isObject _ = False"

text \<open>Errors of the runtime that the modelled code can raise or pass on.\<close>

datatype error = TypeError | ReferenceError | UserError string

section \<open>The names bound in \<open>patch.js\<close>\<close>

text \<open>
  The names that the import declarations of \<open>patch.js\<close> bind (lines 13 to 29), as
  they are written there. The list from \<open>core/util\<close> names \<open>isdef\<close>; the file
  declares no \<open>isDef\<close> of its own, and every test for a defined value in it is
  written \<open>isDef(...)\<close>.
\<close>

definition patch_imports :: "string list" where
  "patch_imports =
     [''VNode'', ''cloneVNode'', ''config'', ''SSR_ATTR'', ''registerRef'', ''traverse'',
      ''activeInstance'', ''isTextInputType'',
      ''warn'', ''isdef'', ''isUndef'', ''isTrue'', ''makeMap'', ''isRegExp'', ''isPrimitive'']"

text \<open>A call \<open>f(...)\<close> first evaluates the name \<open>f\<close>, and only then the arguments. A
  name that is bound nowhere raises a ReferenceError. \<open>lookup_name\<close> is this step for
  the helpers of \<open>core/util\<close>, which only an import can bind: the file declares none
  of them, and the host is taken to have no global of such a name.\<close>

definition lookup_name :: "string \<Rightarrow> error + unit" where
  "lookup_name f = (if f \<in> set patch_imports then Inr () else Inl ReferenceError)"

text \<open>What the helpers of \<open>core/util\<close> look at in their argument: whether it is
  \<open>undefined\<close>, \<open>null\<close> or anything else.\<close>

datatype presence = Undefined | Null | Present

definition of_option :: "'a option \<Rightarrow> presence" where
  "of_option x = (case x of None \<Rightarrow> Undefined | Some v \<Rightarrow> Present)"

fun of_jsval :: "jsval \<Rightarrow> presence" where
  "of_jsval JUndefined = Undefined"
| "of_jsval JNull = Null"
| "of_jsval _ = Present"

text \<open>The calls \<open>isDef(v)\<close>, \<open>isUndef(v)\<close> and \<open>isTrue(v)\<close>, for an argument that is
  already evaluated: the name is looked up, then the helper of \<open>core/util\<close> runs
  (\<open>v !== undefined && v !== null\<close>, \<open>v === undefined || v === null\<close>,
  \<open>v === true\<close>).\<close>

definition isDef :: "presence \<Rightarrow> error + bool" where
  "isDef v =
     (case lookup_name ''isDef'' of
        Inl err \<Rightarrow> Inl err
      | Inr u \<Rightarrow> Inr (v \<noteq> Undefined \<and> v \<noteq> Null))"

definition isUndef :: "presence \<Rightarrow> error + bool" where
  "isUndef v =
     (case lookup_name ''isUndef'' of
        Inl err \<Rightarrow> Inl err
      | Inr u \<Rightarrow> Inr (v = Undefined \<or> v = Null))"

definition isTrue :: "bool \<Rightarrow> error + bool" where
  "isTrue v = (case lookup_name ''isTrue'' of Inl err \<Rightarrow> Inl err | Inr u \<Rightarrow> Inr v)"

text \<open>A test \<open>isDef(x)\<close> that guards the use of \<open>x\<close>: the outcome is the error of the
  call, or \<open>x\<close> itself when the call returns true, or nothing when it returns
  false.\<close>

definition isDef_of :: "'a option \<Rightarrow> error + 'a option" where
  "isDef_of x =
     (case isDef (of_option x) of
        Inl err \<Rightarrow> Inl err
      | Inr d \<Rightarrow> Inr (if d then x else None))"

section \<open>Objects used as dictionaries\<close>

text \<open>
  An object literal \<open>{}\<close> has the own properties that were stored in it and inherits
  the members of \<open>Object.prototype\<close>. Reading a name gives the own property, or else
  the inherited member (a function, or the prototype itself for \<open>__proto__\<close>), or
  else \<open>undefined\<close>. Storing a number or a boolean under \<open>__proto__\<close> runs the
  inherited setter, which ignores such a value; storing under any other name creates or
  overwrites an own property.
\<close>

definition object_prototype :: "string list" where
  "object_prototype =
     [''constructor'', ''hasOwnProperty'', ''isPrototypeOf'', ''propertyIsEnumerable'',
      ''toLocaleString'', ''toString'', ''valueOf'', ''__proto__'',
      ''__defineGetter__'', ''__defineSetter__'', ''__lookupGetter__'',
      ''__lookupSetter__'']"

datatype 'a property = Own 'a | Inherited | Absent

definition dict_get :: "(string \<rightharpoonup> 'a) \<Rightarrow> string \<Rightarrow> 'a property" where
  "dict_get m name =
     (if name = ''__proto__'' then Inherited
      else case m name of
             Some v \<Rightarrow> Own v
           | None \<Rightarrow> if name \<in> set object_prototype then Inherited else Absent)"

definition dict_set :: "(string \<rightharpoonup> 'a) \<Rightarrow> string \<Rightarrow> 'a \<Rightarrow> (string \<rightharpoonup> 'a)" where
  "dict_set m name v = (if name = ''__proto__'' then m else m(name \<mapsto> v))"

section \<open>Virtual nodes\<close>

type_synonym elm = nat

text \<open>A key is \<open>undefined\<close>, \<open>null\<close>, a string or a number; \<open>===\<close> tells all of
  them apart.\<close>

datatype jskey = KUndefined | KNull | KStr string | KNum int

fun of_key :: "jskey \<Rightarrow> presence" where
  "of_key KUndefined = Undefined"
| "of_key KNull = Null"
| "of_key _ = Present"

text \<open>How a \<open>remove\<close> callback uses the \<open>rm\<close> continuation it is handed: it calls it
  before returning, or keeps it and calls it later (an exit animation).\<close>

datatype rm_use = RmNow | RmLater

record vhook =
  hook_destroy :: bool
  hook_remove :: "rm_use option"

record vattrs =
  attrs_type :: jsval

record vnodeData =
  attrs :: "vattrs option"
  hook :: "vhook option"

record asyncFactory =
  factory_ref :: nat
  factory_error :: jsval

datatype 'v component = Component (c_vnode: "'v option")

text \<open>A node is an object: \<open>ref\<close> is its identity, which \<open>===\<close> compares.\<close>

datatype vnode = VNode
  (ref: nat)
  (tag: "string option")
  (key: jskey)
  (data: "vnodeData option")
  (children: "vnode list option")
  (elm: "elm option")
  (isComment: bool)
  (isAsyncPlaceholder: bool)
  (asyncFactory: "asyncFactory option")
  (componentInstance: "vnode component option")

section \<open>Arrays, effects and the backend\<close>

text \<open>Reading an array at an index: out of range the result is \<open>undefined\<close>. For
  the old child list a consumed slot holds \<open>undefined\<close> as well.\<close>

definition arr_get :: "'a list \<Rightarrow> int \<Rightarrow> 'a option" where
  "arr_get xs i = (if 0 \<le> i \<and> i < int (length xs) then Some (xs ! nat i) else None)"

definition slot_get :: "'a option list \<Rightarrow> int \<Rightarrow> 'a option" where
  "slot_get xs i = (case arr_get xs i of None \<Rightarrow> None | Some x \<Rightarrow> x)"

definition arr_set :: "'a list \<Rightarrow> int \<Rightarrow> 'a \<Rightarrow> 'a list" where
  "arr_set xs i x = (if 0 \<le> i \<and> i < int (length xs) then xs[nat i := x] else xs)"

text \<open>
  The reconciler acts on the render target through the platform's \<open>nodeOps\<close>, through
  the modules' callbacks and through the hooks stored on a node. These are external to
  the modelled file, so each call is recorded as an event, in order.
\<close>

datatype event =
    HookDestroy vnode
  | ModuleDestroy nat vnode
  | ModuleRemove nat vnode nat
  | HookRemove vnode nat
  | RemoveChild elm "elm option"
  | InsertBefore elm "elm option" "elm option"
  | CreateElm vnode "elm option" "elm option" int
  | PatchVnode vnode vnode int
  | WarnDuplicateKey string

text \<open>The closure built by \<open>createRmCb\<close>: the node to detach and the counter
  \<open>remove.listeners\<close>.\<close>

record rmcb =
  rm_childElm :: "elm option"
  rm_listeners :: int

record pstate =
  trace :: "event list"
  rms :: "rmcb list"

text \<open>
  A module of the backend maps the name of a hook to its callback, if it has one. A
  callback is known by the way it uses the \<open>rm\<close> continuation when it is handed one.
  The record holds the backend handed to \<open>createPatchFunction\<close> (the modules and the
  queries of \<open>nodeOps\<close>, which depend on what has been done to the render target so
  far) and what \<open>patch.js\<close> takes from its surroundings: the platform's
  \<open>isTextInputType\<close>, whether the build is a production build, and the conversion of
  a number to a property name, which is the engine's.
\<close>

type_synonym callback = "vnode \<Rightarrow> rm_use"
type_synonym vmodule = "string \<rightharpoonup> callback"
type_synonym callbacks = "string \<Rightarrow> callback list"

record backend =
  modules :: "vmodule list"
  parentNode :: "event list \<Rightarrow> elm option \<Rightarrow> elm option"
  nextSibling :: "event list \<Rightarrow> elm option \<Rightarrow> elm option"
  isTextInputType :: "jsval \<Rightarrow> bool"
  production :: bool
  numberToString :: "int \<Rightarrow> string"

definition emit :: "event list \<Rightarrow> pstate \<Rightarrow> pstate" where
  "emit es w = w\<lparr>trace := trace w @ es\<rparr>"

fun set_elm :: "elm option \<Rightarrow> vnode \<Rightarrow> vnode" where
  "set_elm e (VNode r tg k d ch e0 ic ap af ci) = VNode r tg k d ch e ic ap af ci"

text \<open>The property name that a key denotes when it indexes an object.\<close>

fun propKey :: "backend \<Rightarrow> jskey \<Rightarrow> string" where
  "propKey B (KStr s) = s"
| "propKey B (KNum i) = numberToString B i"
| "propKey B KUndefined = ''undefined''"
| "propKey B KNull = ''null''"

text \<open>A loop whose body can raise: it stops at the first error, and what was done
  until then stays done.\<close>

fun sfold :: "('a \<Rightarrow> 's \<Rightarrow> (error + unit) \<times> 's) \<Rightarrow> 'a list \<Rightarrow> 's \<Rightarrow> (error + unit) \<times> 's" where
  "sfold f [] s = (Inr (), s)"
| "sfold f (x # xs) s =
     (case f x s of
        (Inl err, s') \<Rightarrow> (Inl err, s')
      | (Inr u, s') \<Rightarrow> sfold f xs s')"

lemma sfold_cong [fundef_cong]:
  "xs = ys \<Longrightarrow> s = t \<Longrightarrow> (\<And>x s. x \<in> set ys \<Longrightarrow> f x s = g x s)
     \<Longrightarrow> sfold f xs s = sfold g ys t"
proof (induction ys arbitrary: xs s t)
  case Nil
  then show ?case by simp
next
  case (Cons y ys)
  have "sfold f ys s' = sfold g ys s'" for s'
    using Cons.IH [of ys s' s'] Cons.prems(3) by simp
  then show ?case
    using Cons.prems by (simp split: prod.splits sum.splits)
qed

section \<open>The patch function and its callbacks\<close>

text \<open>\<open>createPatchFunction\<close> collects, for each hook name, the callbacks of the
  modules that have one. What it returns is the closure \<open>patch\<close>; the functions
  declared inside it are given the collected \<open>cbs\<close>.\<close>

definition hooks :: "string list" where
  "hooks = [''create'', ''activate'', ''update'', ''remove'', ''destroy'']"

fun collect_hook :: "string \<Rightarrow> vmodule list \<Rightarrow> callback list \<Rightarrow> error + callback list" where
  "collect_hook h [] acc = Inr acc"
| "collect_hook h (m # ms) acc =
     (case isDef_of (m h) of
        Inl err \<Rightarrow> Inl err
      | Inr None \<Rightarrow> collect_hook h ms acc
      | Inr (Some c) \<Rightarrow> collect_hook h ms (acc @ [c]))"

fun collect_hooks :: "string list \<Rightarrow> vmodule list \<Rightarrow> callbacks \<Rightarrow> error + callbacks" where
  "collect_hooks [] ms cbs = Inr cbs"
| "collect_hooks (h # hs) ms cbs =
     (case collect_hook h ms [] of
        Inl err \<Rightarrow> Inl err
      | Inr cs \<Rightarrow> collect_hooks hs ms (cbs(h := cs)))"

definition createPatchFunction :: "backend \<Rightarrow> error + callbacks" where
  "createPatchFunction B = collect_hooks hooks (modules B) (\<lambda>h. [])"

section \<open>Node identity\<close>

text \<open>\<open>typeA = isDef(i = a.data) && isDef(i = i.attrs) && i.type\<close>: the value is
  \<open>false\<close> when the data or its attrs are missing, and the \<open>type\<close> attribute
  otherwise.\<close>

definition inputType :: "vnode \<Rightarrow> error + jsval" where
  "inputType a =
     (case isDef_of (data a) of
        Inl err \<Rightarrow> Inl err
      | Inr None \<Rightarrow> Inr (JBool False)
      | Inr (Some d) \<Rightarrow>
          (case isDef_of (attrs d) of
             Inl err \<Rightarrow> Inl err
           | Inr None \<Rightarrow> Inr (JBool False)
           | Inr (Some at) \<Rightarrow> Inr (attrs_type at)))"

definition sameInputType :: "backend \<Rightarrow> vnode \<Rightarrow> vnode \<Rightarrow> error + bool" where
  "sameInputType B a b =
     (if tag a \<noteq> Some ''input'' then Inr True
      else case inputType a of
             Inl err \<Rightarrow> Inl err
           | Inr typeA \<Rightarrow>
               (case inputType b of
                  Inl err \<Rightarrow> Inl err
                | Inr typeB \<Rightarrow>
                    Inr (typeA = typeB
                         \<or> (isTextInputType B typeA \<and> isTextInputType B typeB))))"

text \<open>Two factories are the same object when their references agree.\<close>

definition sameFactory :: "asyncFactory option \<Rightarrow> asyncFactory option \<Rightarrow> bool" where
  "sameFactory f g = (map_option factory_ref f = map_option factory_ref g)"

text \<open>The first disjunct of \<open>sameVnode\<close>, evaluated left to right and stopping at the
  first false conjunct.\<close>

definition sameElement :: "backend \<Rightarrow> vnode \<Rightarrow> vnode \<Rightarrow> error + bool" where
  "sameElement B a b =
     (if tag a = tag b \<and> isComment a = isComment b then
        (case isDef (of_option (data a)) of
           Inl err \<Rightarrow> Inl err
         | Inr da \<Rightarrow>
             (case isDef (of_option (data b)) of
                Inl err \<Rightarrow> Inl err
              | Inr db \<Rightarrow> if da = db then sameInputType B a b else Inr False))
      else Inr False)"

text \<open>The second disjunct: \<open>isUndef(b.asyncFactory.error)\<close> reads a property of
  \<open>b.asyncFactory\<close>, which raises a TypeError when there is no factory.\<close>

definition samePlaceholder :: "vnode \<Rightarrow> vnode \<Rightarrow> error + bool" where
  "samePlaceholder a b =
     (case isTrue (isAsyncPlaceholder a) of
        Inl err \<Rightarrow> Inl err
      | Inr t \<Rightarrow>
          if t \<and> sameFactory (asyncFactory a) (asyncFactory b) then
            (case lookup_name ''isUndef'' of
               Inl err \<Rightarrow> Inl err
             | Inr u \<Rightarrow>
                 (case asyncFactory b of
                    None \<Rightarrow> Inl TypeError
                  | Some g \<Rightarrow> isUndef (of_jsval (factory_error g))))
          else Inr False)"

text \<open>\<open>sameVnode\<close>. Reading the key of an undefined argument raises a TypeError.\<close>

definition sameVnode :: "backend \<Rightarrow> vnode option \<Rightarrow> vnode option \<Rightarrow> error + bool" where
  "sameVnode B ao bo =
     (case ao of
        None \<Rightarrow> Inl TypeError
      | Some a \<Rightarrow>
         (case bo of
            None \<Rightarrow> Inl TypeError
          | Some b \<Rightarrow>
             if key a \<noteq> key b then Inr False
             else (case sameElement B a b of
                     Inl err \<Rightarrow> Inl err
                   | Inr True \<Rightarrow> Inr True
                   | Inr False \<Rightarrow> samePlaceholder a b)))"

section \<open>Keys of a child list\<close>

text \<open>\<open>checkDuplicateKeys\<close>: \<open>seenKeys\<close> holds \<open>true\<close> under every name stored so
  far; a name is reported when reading it gives a truthy value, which an inherited
  member is as well.\<close>

fun checkDuplicateKeys_from ::
  "backend \<Rightarrow> (string \<rightharpoonup> bool) \<Rightarrow> vnode list \<Rightarrow> pstate \<Rightarrow> (error + unit) \<times> pstate" where
  "checkDuplicateKeys_from B seenKeys [] w = (Inr (), w)"
| "checkDuplicateKeys_from B seenKeys (vnode # rest) w =
     (case isDef (of_key (key vnode)) of
        Inl err \<Rightarrow> (Inl err, w)
      | Inr False \<Rightarrow> checkDuplicateKeys_from B seenKeys rest w
      | Inr True \<Rightarrow>
          (case dict_get seenKeys (propKey B (key vnode)) of
             Absent \<Rightarrow>
               checkDuplicateKeys_from B
                 (dict_set seenKeys (propKey B (key vnode)) True) rest w
           | Own False \<Rightarrow>
               checkDuplicateKeys_from B
                 (dict_set seenKeys (propKey B (key vnode)) True) rest w
           | _ \<Rightarrow>
               checkDuplicateKeys_from B seenKeys rest
                 (emit [WarnDuplicateKey (propKey B (key vnode))] w)))"

definition checkDuplicateKeys :: "backend \<Rightarrow> vnode list \<Rightarrow> pstate \<Rightarrow> (error + unit) \<times> pstate" where
  "checkDuplicateKeys B chs w = checkDuplicateKeys_from B Map.empty chs w"

text \<open>\<open>createKeyToOldIdx\<close>: the loop runs over \<open>beginIdx..endIdx\<close>; reading the key
  of an undefined slot raises a TypeError.\<close>

fun createKeyToOldIdx_loop ::
  "backend \<Rightarrow> vnode option list \<Rightarrow> (string \<rightharpoonup> int) \<Rightarrow> int list
     \<Rightarrow> error + (string \<rightharpoonup> int)" where
  "createKeyToOldIdx_loop B chs m [] = Inr m"
| "createKeyToOldIdx_loop B chs m (i # is) =
     (case slot_get chs i of
        None \<Rightarrow> Inl TypeError
      | Some c \<Rightarrow>
          (case isDef (of_key (key c)) of
             Inl err \<Rightarrow> Inl err
           | Inr d \<Rightarrow>
               createKeyToOldIdx_loop B chs
                 (if d then dict_set m (propKey B (key c)) i else m) is))"

definition createKeyToOldIdx ::
  "backend \<Rightarrow> vnode option list \<Rightarrow> int \<Rightarrow> int \<Rightarrow> error + (string \<rightharpoonup> int)" where
  "createKeyToOldIdx B chs beginIdx endIdx =
     createKeyToOldIdx_loop B chs Map.empty [beginIdx..endIdx]"

text \<open>\<open>findIdxInOld\<close>: the loop runs over \<open>start..end - 1\<close> and returns the first
  index whose slot is defined and the same node; \<open>undefined\<close> when there is none.\<close>

fun findIdxInOld_loop ::
  "backend \<Rightarrow> vnode option \<Rightarrow> vnode option list \<Rightarrow> int list \<Rightarrow> error + int option" where
  "findIdxInOld_loop B node oldCh [] = Inr None"
| "findIdxInOld_loop B node oldCh (i # is) =
     (case isDef_of (slot_get oldCh i) of
        Inl err \<Rightarrow> Inl err
      | Inr None \<Rightarrow> findIdxInOld_loop B node oldCh is
      | Inr (Some c) \<Rightarrow>
          (case sameVnode B node (Some c) of
             Inl err \<Rightarrow> Inl err
           | Inr same \<Rightarrow> if same then Inr (Some i) else findIdxInOld_loop B node oldCh is))"

definition findIdxInOld ::
  "backend \<Rightarrow> vnode option \<Rightarrow> vnode option list \<Rightarrow> int \<Rightarrow> int \<Rightarrow> error + int option" where
  "findIdxInOld B node oldCh start end' = findIdxInOld_loop B node oldCh [start..end' - 1]"

section \<open>Removing nodes\<close>

text \<open>What \<open>isDef_of\<close> hands on is the tested value.\<close>

lemma isDef_of_Some: "isDef_of x = Inr (Some v) \<Longrightarrow> x = Some v"
  by (auto simp: isDef_of_def split: sum.splits if_splits)

text \<open>\<open>invokeDestroyHook\<close>: the node's own \<open>destroy\<close> hook, then the modules'
  \<open>destroy\<close> callbacks, both only when the node has data; then the children, in
  order.\<close>

function invokeDestroyHook ::
  "backend \<Rightarrow> callbacks \<Rightarrow> vnode \<Rightarrow> pstate \<Rightarrow> (error + unit) \<times> pstate" where
  "invokeDestroyHook B cbs vnode w =
     (case (case isDef_of (data vnode) of
              Inl err \<Rightarrow> (Inl err, w)
            | Inr None \<Rightarrow> (Inr (), w)
            | Inr (Some dt) \<Rightarrow>
                (case isDef_of (hook dt) of
                   Inl err \<Rightarrow> (Inl err, w)
                 | Inr hk \<Rightarrow>
                     (case (case hk of
                              None \<Rightarrow> Inr False
                            | Some h \<Rightarrow>
                                isDef (if hook_destroy h then Present else Undefined)) of
                        Inl err \<Rightarrow> (Inl err, w)
                      | Inr own \<Rightarrow>
                          (Inr (),
                           emit ((if own then [HookDestroy vnode] else [])
                                 @ map (\<lambda>i. ModuleDestroy i vnode)
                                     [0..<length (cbs ''destroy'')]) w)))) of
        (Inl err, w1) \<Rightarrow> (Inl err, w1)
      | (Inr u, w1) \<Rightarrow>
          (case isDef_of (children vnode) of
             Inl err \<Rightarrow> (Inl err, w1)
           | Inr None \<Rightarrow> (Inr (), w1)
           | Inr (Some cs) \<Rightarrow> sfold (invokeDestroyHook B cbs) cs w1))"
  by pat_completeness auto
termination
proof (relation "measure (\<lambda>(B, cbs, v, w). size v)", goal_cases)
  case 1
  show ?case by simp
next
  case (2 B cbs vnode w x y b ba x2 xa s)
  have "isDef_of (children vnode) = Inr (Some x2)"
    using 2(3) 2(4) by (simp only:)
  then have ch: "children vnode = Some x2"
    by (rule isDef_of_Some)
  have le: "size xa \<le> size_list size x2"
    using 2(5) by (rule size_list_estimation') (rule order_refl)
  obtain r tg k d ch0 e ic ap af ci where v: "vnode = VNode r tg k d ch0 e ic ap af ci"
    by (cases vnode)
  have "size xa < size vnode"
    using le ch unfolding v by simp
  then show ?case
    by (simp only: in_measure prod.case)
qed

declare invokeDestroyHook.simps [simp del]

text \<open>\<open>removeNode\<close>: the element is detached only if it still has a parent.\<close>

definition removeNode :: "backend \<Rightarrow> elm option \<Rightarrow> pstate \<Rightarrow> (error + unit) \<times> pstate" where
  "removeNode B el w =
     (case isDef_of (parentNode B (trace w) el) of
        Inl err \<Rightarrow> (Inl err, w)
      | Inr None \<Rightarrow> (Inr (), w)
      | Inr (Some parent) \<Rightarrow> (Inr (), emit [RemoveChild parent el] w))"

text \<open>\<open>createRmCb\<close> allocates the closure \<open>remove\<close>; it is known by its position in
  \<open>rms\<close>. \<open>rm_call\<close> is one call of that closure:
  \<open>if (--remove.listeners === 0) removeNode(childElm)\<close>.\<close>

definition createRmCb :: "elm option \<Rightarrow> int \<Rightarrow> pstate \<Rightarrow> nat \<times> pstate" where
  "createRmCb childElm listeners w =
     (length (rms w),
      w\<lparr>rms := rms w @ [\<lparr>rm_childElm = childElm, rm_listeners = listeners\<rparr>]\<rparr>)"

definition rm_call :: "backend \<Rightarrow> nat \<Rightarrow> pstate \<Rightarrow> (error + unit) \<times> pstate" where
  "rm_call B r w =
     (let cb = rms w ! r;
          n = rm_listeners cb - 1;
          w1 = w\<lparr>rms := (rms w)[r := cb\<lparr>rm_listeners := n\<rparr>]\<rparr>
      in if n = 0 then removeNode B (rm_childElm cb) w1 else (Inr (), w1))"

definition add_listeners :: "nat \<Rightarrow> int \<Rightarrow> pstate \<Rightarrow> pstate" where
  "add_listeners r n w =
     w\<lparr>rms := (rms w)[r := (rms w ! r)\<lparr>rm_listeners := rm_listeners (rms w ! r) + n\<rparr>]\<rparr>"

text \<open>One callback that was handed \<open>rm\<close>: the call is recorded, and \<open>rm\<close> is called
  at once when the callback does so.\<close>

definition use_rm ::
  "backend \<Rightarrow> event \<Rightarrow> rm_use \<Rightarrow> nat \<Rightarrow> pstate \<Rightarrow> (error + unit) \<times> pstate" where
  "use_rm B ev u r w =
     (case u of RmNow \<Rightarrow> rm_call B r (emit [ev] w) | RmLater \<Rightarrow> (Inr (), emit [ev] w))"

text \<open>\<open>removeAndInvokeRemoveHook\<close>. The condition \<open>isDef(rm) || isDef(vnode.data)\<close>
  evaluates its second call only when the first returns false. \<open>rm\<close> is the position
  of the closure in \<open>rms\<close>, or \<open>undefined\<close> for a direct removal.\<close>

definition rm_or_data :: "nat option \<Rightarrow> vnode \<Rightarrow> error + bool" where
  "rm_or_data rm vnode =
     (case isDef (of_option rm) of
        Inl err \<Rightarrow> Inl err
      | Inr True \<Rightarrow> Inr True
      | Inr False \<Rightarrow> isDef (of_option (data vnode)))"

text \<open>The root node of the child component, when the three tests
  \<open>isDef(i = vnode.componentInstance) && isDef(i = i._vnode) && isDef(i.data)\<close> all
  return true.\<close>

definition nested_root :: "vnode \<Rightarrow> error + vnode option" where
  "nested_root vnode =
     (case isDef_of (componentInstance vnode) of
        Inl err \<Rightarrow> Inl err
      | Inr None \<Rightarrow> Inr None
      | Inr (Some c) \<Rightarrow>
          (case isDef_of (c_vnode c) of
             Inl err \<Rightarrow> Inl err
           | Inr None \<Rightarrow> Inr None
           | Inr (Some i) \<Rightarrow>
               (case isDef (of_option (data i)) of
                  Inl err \<Rightarrow> Inl err
                | Inr d \<Rightarrow> Inr (if d then Some i else None))))"

text \<open>The node's own \<open>remove\<close> hook, when
  \<open>isDef(i = vnode.data.hook) && isDef(i = i.remove)\<close> returns true; reading
  \<open>vnode.data.hook\<close> raises a TypeError when the node has no data.\<close>

definition own_remove :: "vnode \<Rightarrow> error + rm_use option" where
  "own_remove vnode =
     (case lookup_name ''isDef'' of
        Inl err \<Rightarrow> Inl err
      | Inr u \<Rightarrow>
          (case data vnode of
             None \<Rightarrow> Inl TypeError
           | Some dt \<Rightarrow>
               (case isDef_of (hook dt) of
                  Inl err \<Rightarrow> Inl err
                | Inr None \<Rightarrow> Inr None
                | Inr (Some h) \<Rightarrow> isDef_of (hook_remove h))))"

lemma nested_root_size: "nested_root vnode = Inr (Some i) \<Longrightarrow> size i < size vnode"
proof -
  assume a: "nested_root vnode = Inr (Some i)"
  obtain c where c: "isDef_of (componentInstance vnode) = Inr (Some c)"
    and i: "isDef_of (c_vnode c) = Inr (Some i)"
    using a by (auto simp: nested_root_def split: sum.splits option.splits if_splits)
  have ci: "componentInstance vnode = Some c" using c by (rule isDef_of_Some)
  have cv: "c_vnode c = Some i" using i by (rule isDef_of_Some)
  obtain r tg k d ch e ic ap af ci0 where v: "vnode = VNode r tg k d ch e ic ap af ci0"
    by (cases vnode)
  obtain iv where cc: "c = Component iv" by (cases c)
  show ?thesis using ci cv unfolding v cc by simp
qed

function removeAndInvokeRemoveHook ::
  "backend \<Rightarrow> callbacks \<Rightarrow> vnode \<Rightarrow> nat option \<Rightarrow> pstate \<Rightarrow> (error + unit) \<times> pstate" where
  "removeAndInvokeRemoveHook B cbs vnode rm w =
     (case rm_or_data rm vnode of
        Inl err \<Rightarrow> (Inl err, w)
      | Inr False \<Rightarrow> removeNode B (elm vnode) w
      | Inr True \<Rightarrow>
          (let listeners = int (length (cbs ''remove'')) + 1 in
           case isDef_of rm of
             Inl err \<Rightarrow> (Inl err, w)
           | Inr passed \<Rightarrow>
               (let rw = (case passed of
                            Some r \<Rightarrow> (r, add_listeners r listeners w)
                          | None \<Rightarrow> createRmCb (elm vnode) listeners w);
                    r = fst rw;
                    w1 = snd rw
                in case (case nested_root vnode of
                           Inl err \<Rightarrow> (Inl err, w1)
                         | Inr None \<Rightarrow> (Inr (), w1)
                         | Inr (Some i) \<Rightarrow>
                             removeAndInvokeRemoveHook B cbs i (Some r) w1) of
                     (Inl err, w2) \<Rightarrow> (Inl err, w2)
                   | (Inr u, w2) \<Rightarrow>
                       (case sfold (\<lambda>i. use_rm B (ModuleRemove i vnode r)
                                           ((cbs ''remove'' ! i) vnode) r)
                               [0..<length (cbs ''remove'')] w2 of
                          (Inl err, w3) \<Rightarrow> (Inl err, w3)
                        | (Inr u, w3) \<Rightarrow>
                            (case own_remove vnode of
                               Inl err \<Rightarrow> (Inl err, w3)
                             | Inr (Some use) \<Rightarrow> use_rm B (HookRemove vnode r) use r w3
                             | Inr None \<Rightarrow> rm_call B r w3)))))"
  by pat_completeness auto
termination
proof (relation "measure (\<lambda>(B, cbs, v, rm, w). size v)", goal_cases)
  case 1
  show ?case by simp
next
  case (2 B cbs vnode rm w b x passed xa xb xc ba i)
  have "nested_root vnode = Inr (Some i)"
    using 2 by (simp only:)
  then have "size i < size vnode"
    by (rule nested_root_size)
  then show ?case
    by (simp only: in_measure prod.case)
qed

declare removeAndInvokeRemoveHook.simps [simp del]

text \<open>\<open>removeVnodes\<close>: for a node with a tag the remove hooks run first, then the
  destroy hooks; a text node is detached directly; an undefined slot is skipped.\<close>

definition removeVnode_at ::
  "backend \<Rightarrow> callbacks \<Rightarrow> vnode option list \<Rightarrow> int \<Rightarrow> pstate \<Rightarrow> (error + unit) \<times> pstate" where
  "removeVnode_at B cbs vnodes idx w =
     (case isDef_of (slot_get vnodes idx) of
        Inl err \<Rightarrow> (Inl err, w)
      | Inr None \<Rightarrow> (Inr (), w)
      | Inr (Some c) \<Rightarrow>
          (case isDef (of_option (tag c)) of
             Inl err \<Rightarrow> (Inl err, w)
           | Inr True \<Rightarrow>
               (case removeAndInvokeRemoveHook B cbs c None w of
                  (Inl err, w1) \<Rightarrow> (Inl err, w1)
                | (Inr u, w1) \<Rightarrow> invokeDestroyHook B cbs c w1)
           | Inr False \<Rightarrow> removeNode B (elm c) w))"

definition removeVnodes ::
  "backend \<Rightarrow> callbacks \<Rightarrow> elm option \<Rightarrow> vnode option list \<Rightarrow> int \<Rightarrow> int \<Rightarrow> pstate
     \<Rightarrow> (error + unit) \<times> pstate" where
  "removeVnodes B cbs parentElm vnodes startIdx endIdx w =
     sfold (removeVnode_at B cbs vnodes) [startIdx..endIdx] w"

text \<open>\<open>createElm\<close> begins with the test \<open>isDef(vnode.elm) && isDef(ownerArray)\<close>.
  What follows it (the clone of a reused node, the new element and its insertion) is
  not unfolded: it is recorded as one call.\<close>

definition createElm ::
  "vnode option \<Rightarrow> elm option \<Rightarrow> elm option \<Rightarrow> int \<Rightarrow> pstate \<Rightarrow> (error + unit) \<times> pstate" where
  "createElm vnode parentElm refElm idx w =
     (case lookup_name ''isDef'' of
        Inl err \<Rightarrow> (Inl err, w)
      | Inr u \<Rightarrow>
          (case vnode of
             None \<Rightarrow> (Inl TypeError, w)
           | Some v \<Rightarrow> (Inr (), emit [CreateElm v parentElm refElm idx] w)))"

text \<open>\<open>addVnodes\<close>: one \<open>createElm\<close> per index.\<close>

definition addVnodes ::
  "elm option \<Rightarrow> elm option \<Rightarrow> vnode list \<Rightarrow> int \<Rightarrow> int \<Rightarrow> pstate
     \<Rightarrow> (error + unit) \<times> pstate" where
  "addVnodes parentElm refElm vnodes startIdx endIdx w =
     sfold (\<lambda>idx. createElm (arr_get vnodes idx) parentElm refElm idx) [startIdx..endIdx] w"

text \<open>The entry of \<open>patch\<close>: with no new node, the destroy hooks of the old node are
  invoked and \<open>undefined\<close> is returned. The remainder of \<open>patch\<close> (mounting,
  hydration, replacement) is the parameter \<open>rest\<close>.\<close>

definition patch ::
  "backend \<Rightarrow> callbacks
     \<Rightarrow> (vnode option \<Rightarrow> vnode option \<Rightarrow> pstate \<Rightarrow> (error + elm option) \<times> pstate)
     \<Rightarrow> vnode option \<Rightarrow> vnode option \<Rightarrow> pstate \<Rightarrow> (error + elm option) \<times> pstate" where
  "patch B cbs rest oldVnode vnode w =
     (case isUndef (of_option vnode) of
        Inl err \<Rightarrow> (Inl err, w)
      | Inr False \<Rightarrow> rest oldVnode vnode w
      | Inr True \<Rightarrow>
          (case isDef_of oldVnode of
             Inl err \<Rightarrow> (Inl err, w)
           | Inr None \<Rightarrow> (Inr None, w)
           | Inr (Some ov) \<Rightarrow>
               (case invokeDestroyHook B cbs ov w of
                  (Inl err, w1) \<Rightarrow> (Inl err, w1)
                | (Inr u, w1) \<Rightarrow> (Inr None, w1))))"

section \<open>The list diff\<close>

text \<open>The variables of \<open>updateChildren\<close>. The four cached nodes are kept beside the
  cursors, as in the source; \<open>oldKeyToIdx\<close> is \<open>undefined\<close> until the first
  iteration that needs it.\<close>

record uc_state =
  oldStartIdx :: int
  newStartIdx :: int
  oldEndIdx :: int
  newEndIdx :: int
  oldStartVnode :: "vnode option"
  oldEndVnode :: "vnode option"
  newStartVnode :: "vnode option"
  newEndVnode :: "vnode option"
  oldKeyToIdx :: "(string \<rightharpoonup> int) option"
  oldCh :: "vnode option list"
  newCh :: "vnode list"
  world :: pstate

definition uc_emit :: "event list \<Rightarrow> uc_state \<Rightarrow> uc_state" where
  "uc_emit es s = s\<lparr>world := emit es (world s)\<rparr>"

text \<open>A call \<open>createElm(newStartVnode, queue, parentElm, oldStartVnode.elm, false,
  newCh, newStartIdx)\<close>: the arguments are evaluated first.\<close>

definition mount_newStart :: "elm \<Rightarrow> uc_state \<Rightarrow> (error + unit) \<times> uc_state" where
  "mount_newStart parentElm s =
     (case oldStartVnode s of
        None \<Rightarrow> (Inl TypeError, s)
      | Some os \<Rightarrow>
          (case createElm (newStartVnode s) (Some parentElm) (elm os) (newStartIdx s)
                  (world s) of
             (r, w) \<Rightarrow> (r, s\<lparr>world := w\<rparr>)))"

text \<open>A call \<open>patchVnode(old, new, queue, newCh, idx)\<close>. It returns at once when
  both arguments are one object, and otherwise goes on to the test
  \<open>isDef(vnode.elm) && isDef(ownerArray)\<close> and to \<open>vnode.elm = oldVnode.elm\<close>. The
  remainder is not unfolded: it is recorded as one call, and the one effect that the
  list diff reads back is modelled, that \<open>newCh[idx]\<close> then carries the element of the
  old node.\<close>

definition patchVnode ::
  "vnode option \<Rightarrow> vnode option \<Rightarrow> int \<Rightarrow> uc_state \<Rightarrow> (error + unit) \<times> uc_state" where
  "patchVnode oldVnode vnode idx s =
     (if map_option ref oldVnode = map_option ref vnode then (Inr (), s)
      else case lookup_name ''isDef'' of
             Inl err \<Rightarrow> (Inl err, s)
           | Inr u \<Rightarrow>
               (case vnode of
                  None \<Rightarrow> (Inl TypeError, s)
                | Some new \<Rightarrow>
                    (case oldVnode of
                       None \<Rightarrow> (Inl TypeError, s)
                     | Some old \<Rightarrow>
                         (Inr (),
                          (uc_emit [PatchVnode old new idx] s)
                            \<lparr>newCh := arr_set (newCh s) idx (set_elm (elm old) new)\<rparr>))))"

text \<open>A statement \<open>canMove && nodeOps.insertBefore(parentElm, a.elm, ref)\<close>, for a
  reference element that is already evaluated.\<close>

definition move_before ::
  "bool \<Rightarrow> elm \<Rightarrow> vnode option \<Rightarrow> elm option \<Rightarrow> uc_state \<Rightarrow> (error + unit) \<times> uc_state" where
  "move_before canMove parentElm a refElm s =
     (if canMove then
        (case a of
           None \<Rightarrow> (Inl TypeError, s)
         | Some v \<Rightarrow> (Inr (), uc_emit [InsertBefore parentElm (elm v) refElm] s))
      else (Inr (), s))"

definition advance_oldStart :: "uc_state \<Rightarrow> uc_state" where
  "advance_oldStart s =
     s\<lparr>oldStartIdx := oldStartIdx s + 1,
       oldStartVnode := slot_get (oldCh s) (oldStartIdx s + 1)\<rparr>"

definition retreat_oldEnd :: "uc_state \<Rightarrow> uc_state" where
  "retreat_oldEnd s =
     s\<lparr>oldEndIdx := oldEndIdx s - 1,
       oldEndVnode := slot_get (oldCh s) (oldEndIdx s - 1)\<rparr>"

definition advance_newStart :: "uc_state \<Rightarrow> uc_state" where
  "advance_newStart s =
     s\<lparr>newStartIdx := newStartIdx s + 1,
       newStartVnode := arr_get (newCh s) (newStartIdx s + 1)\<rparr>"

definition retreat_newEnd :: "uc_state \<Rightarrow> uc_state" where
  "retreat_newEnd s =
     s\<lparr>newEndIdx := newEndIdx s - 1,
       newEndVnode := arr_get (newCh s) (newEndIdx s - 1)\<rparr>"

text \<open>The map of the old keys is built on first use, from the window of old children
  current at that moment.\<close>

definition ensure_map :: "backend \<Rightarrow> uc_state \<Rightarrow> error + (string \<rightharpoonup> int)" where
  "ensure_map B s =
     (case isUndef (of_option (oldKeyToIdx s)) of
        Inl err \<Rightarrow> Inl err
      | Inr True \<Rightarrow> createKeyToOldIdx B (oldCh s) (oldStartIdx s) (oldEndIdx s)
      | Inr False \<Rightarrow>
          (case oldKeyToIdx s of
             Some m \<Rightarrow> Inr m
           | None \<Rightarrow> createKeyToOldIdx B (oldCh s) (oldStartIdx s) (oldEndIdx s)))"

text \<open>\<open>idxInOld\<close>: a node with a key is looked up in the map, a node without key is
  searched for among the old children. The test \<open>isDef(newStartVnode.key)\<close> looks up
  the name \<open>isDef\<close> before it reads the key.\<close>

definition lookup_idx ::
  "backend \<Rightarrow> (string \<rightharpoonup> int) \<Rightarrow> uc_state \<Rightarrow> error + int property" where
  "lookup_idx B m s =
     (case lookup_name ''isDef'' of
        Inl err \<Rightarrow> Inl err
      | Inr u \<Rightarrow>
          (case newStartVnode s of
             None \<Rightarrow> Inl TypeError
           | Some n \<Rightarrow>
               (case isDef (of_key (key n)) of
                  Inl err \<Rightarrow> Inl err
                | Inr True \<Rightarrow> Inr (dict_get m (propKey B (key n)))
                | Inr False \<Rightarrow>
                    (case findIdxInOld B (Some n) (oldCh s) (oldStartIdx s) (oldEndIdx s) of
                       Inl err \<Rightarrow> Inl err
                     | Inr None \<Rightarrow> Inr Absent
                     | Inr (Some i) \<Rightarrow> Inr (Own i)))))"

text \<open>The old node at \<open>idxInOld\<close>. An inherited member is not an index: the array
  has no property of its name.\<close>

definition old_at :: "uc_state \<Rightarrow> int property \<Rightarrow> vnode option" where
  "old_at s idxInOld = (case idxInOld of Own i \<Rightarrow> slot_get (oldCh s) i | _ \<Rightarrow> None)"

definition consume :: "int property \<Rightarrow> uc_state \<Rightarrow> uc_state" where
  "consume idxInOld s =
     (case idxInOld of Own i \<Rightarrow> s\<lparr>oldCh := arr_set (oldCh s) i None\<rparr> | _ \<Rightarrow> s)"

text \<open>The last branch of the loop body: no cursor comparison matched.\<close>

definition uc_lookup_branch ::
  "backend \<Rightarrow> elm \<Rightarrow> bool \<Rightarrow> uc_state \<Rightarrow> (error + unit) \<times> uc_state" where
  "uc_lookup_branch B parentElm canMove s =
     (case ensure_map B s of
        Inl err \<Rightarrow> (Inl err, s)
      | Inr m \<Rightarrow>
     (let s1 = s\<lparr>oldKeyToIdx := Some m\<rparr> in
      case lookup_idx B m s1 of
        Inl err \<Rightarrow> (Inl err, s1)
      | Inr idxInOld \<Rightarrow>
     (case isUndef (case idxInOld of Absent \<Rightarrow> Undefined | _ \<Rightarrow> Present) of
        Inl err \<Rightarrow> (Inl err, s1)
      | Inr True \<Rightarrow>
          (case mount_newStart parentElm s1 of
             (Inl err, s2) \<Rightarrow> (Inl err, s2)
           | (Inr u, s2) \<Rightarrow> (Inr (), advance_newStart s2))
      | Inr False \<Rightarrow>
     (case sameVnode B (old_at s1 idxInOld) (newStartVnode s1) of
        Inl err \<Rightarrow> (Inl err, s1)
      | Inr False \<Rightarrow>
          (case mount_newStart parentElm s1 of
             (Inl err, s2) \<Rightarrow> (Inl err, s2)
           | (Inr u, s2) \<Rightarrow> (Inr (), advance_newStart s2))
      | Inr True \<Rightarrow>
     (case patchVnode (old_at s1 idxInOld) (newStartVnode s1) (newStartIdx s1) s1 of
        (Inl err, s2) \<Rightarrow> (Inl err, s2)
      | (Inr u, s2) \<Rightarrow>
     (case move_before canMove parentElm (old_at s1 idxInOld)
             (case oldStartVnode s1 of None \<Rightarrow> None | Some os \<Rightarrow> elm os)
             (consume idxInOld s2) of
        (Inl err, s3) \<Rightarrow> (Inl err, s3)
      | (Inr u, s3) \<Rightarrow> (Inr (), advance_newStart s3)))))))"

text \<open>One of the four cursor comparisons matched: the pair is patched, the old node is
  moved if the branch moves it, and the two cursors step.\<close>

definition uc_matched ::
  "vnode option \<Rightarrow> vnode option \<Rightarrow> int \<Rightarrow> (uc_state \<Rightarrow> (error + unit) \<times> uc_state)
     \<Rightarrow> (uc_state \<Rightarrow> uc_state) \<Rightarrow> uc_state \<Rightarrow> (error + unit) \<times> uc_state" where
  "uc_matched old new idx move step s =
     (case patchVnode old new idx s of
        (Inl err, s1) \<Rightarrow> (Inl err, s1)
      | (Inr u, s1) \<Rightarrow>
          (case move s1 of
             (Inl err, s2) \<Rightarrow> (Inl err, s2)
           | (Inr u, s2) \<Rightarrow> (Inr (), step s2)))"

text \<open>The body of the \<open>while\<close> loop: the branches in the order of the source.\<close>

definition uc_step ::
  "backend \<Rightarrow> elm \<Rightarrow> bool \<Rightarrow> uc_state \<Rightarrow> (error + unit) \<times> uc_state" where
  "uc_step B parentElm canMove s =
     (case isUndef (of_option (oldStartVnode s)) of
        Inl err \<Rightarrow> (Inl err, s)
      | Inr True \<Rightarrow> (Inr (), advance_oldStart s)
      | Inr False \<Rightarrow>
     (case isUndef (of_option (oldEndVnode s)) of
        Inl err \<Rightarrow> (Inl err, s)
      | Inr True \<Rightarrow> (Inr (), retreat_oldEnd s)
      | Inr False \<Rightarrow>
     (case sameVnode B (oldStartVnode s) (newStartVnode s) of
        Inl err \<Rightarrow> (Inl err, s)
      | Inr True \<Rightarrow>
          uc_matched (oldStartVnode s) (newStartVnode s) (newStartIdx s)
            (\<lambda>s1. (Inr (), s1))
            (\<lambda>s1. advance_newStart (advance_oldStart s1)) s
      | Inr False \<Rightarrow>
     (case sameVnode B (oldEndVnode s) (newEndVnode s) of
        Inl err \<Rightarrow> (Inl err, s)
      | Inr True \<Rightarrow>
          uc_matched (oldEndVnode s) (newEndVnode s) (newEndIdx s)
            (\<lambda>s1. (Inr (), s1))
            (\<lambda>s1. retreat_newEnd (retreat_oldEnd s1)) s
      | Inr False \<Rightarrow>
     (case sameVnode B (oldStartVnode s) (newEndVnode s) of
        Inl err \<Rightarrow> (Inl err, s)
      | Inr True \<Rightarrow>
          uc_matched (oldStartVnode s) (newEndVnode s) (newEndIdx s)
            (\<lambda>s1. move_before canMove parentElm (oldStartVnode s)
                     (case oldEndVnode s of
                        None \<Rightarrow> None
                      | Some oe \<Rightarrow> nextSibling B (trace (world s1)) (elm oe)) s1)
            (\<lambda>s1. retreat_newEnd (advance_oldStart s1)) s
      | Inr False \<Rightarrow>
     (case sameVnode B (oldEndVnode s) (newStartVnode s) of
        Inl err \<Rightarrow> (Inl err, s)
      | Inr True \<Rightarrow>
          uc_matched (oldEndVnode s) (newStartVnode s) (newStartIdx s)
            (\<lambda>s1. move_before canMove parentElm (oldEndVnode s)
                     (case oldStartVnode s of None \<Rightarrow> None | Some os \<Rightarrow> elm os) s1)
            (\<lambda>s1. advance_newStart (retreat_oldEnd s1)) s
      | Inr False \<Rightarrow> uc_lookup_branch B parentElm canMove s))))))"

text \<open>Every iteration that returns has moved a cursor, so the loop ends.\<close>

definition cursors :: "uc_state \<Rightarrow> int \<times> int \<times> int \<times> int" where
  "cursors s = (oldStartIdx s, newStartIdx s, oldEndIdx s, newEndIdx s)"

definition uc_measure :: "uc_state \<Rightarrow> nat" where
  "uc_measure s =
     nat (oldEndIdx s - oldStartIdx s + 1) + nat (newEndIdx s - newStartIdx s + 1)"

lemma patchVnode_cursors: "patchVnode a b i s = (r, s') \<Longrightarrow> cursors s' = cursors s"
  by (auto simp: patchVnode_def cursors_def uc_emit_def
      split: if_splits sum.splits option.splits)

lemma mount_newStart_cursors: "mount_newStart p s = (r, s') \<Longrightarrow> cursors s' = cursors s"
  by (auto simp: mount_newStart_def cursors_def split: option.splits prod.splits)

lemma move_before_cursors: "move_before cm p a e s = (r, s') \<Longrightarrow> cursors s' = cursors s"
  by (auto simp: move_before_def cursors_def uc_emit_def split: if_splits option.splits)

lemma consume_cursors: "cursors (consume i s) = cursors s"
  by (simp add: consume_def cursors_def split: property.splits)

lemma key_map_cursors: "cursors (s\<lparr>oldKeyToIdx := m\<rparr>) = cursors s"
  by (simp add: cursors_def)

lemma advance_newStart_measure:
  "cursors s1 = cursors s \<Longrightarrow> newStartIdx s \<le> newEndIdx s
     \<Longrightarrow> uc_measure (advance_newStart s1) < uc_measure s"
  by (auto simp: cursors_def uc_measure_def advance_newStart_def)

lemma uc_lookup_branch_measure:
  assumes "uc_lookup_branch B p cm s = (Inr u, s')" and "newStartIdx s \<le> newEndIdx s"
  shows "uc_measure s' < uc_measure s"
proof -
  have adv: "uc_measure (advance_newStart s1) < uc_measure s"
    if "cursors s1 = cursors s" for s1
    using that assms(2) by (rule advance_newStart_measure)
  show ?thesis
    using assms(1) unfolding uc_lookup_branch_def Let_def
    by (auto split: sum.splits bool.splits prod.splits
        intro!: adv
        simp: key_map_cursors consume_cursors
        dest!: mount_newStart_cursors patchVnode_cursors move_before_cursors)
qed

lemma uc_matched_measure:
  assumes "uc_matched a b i move step s = (Inr u, s')"
    and "\<And>s1 r s2. move s1 = (r, s2) \<Longrightarrow> cursors s2 = cursors s1"
    and "\<And>s1. cursors s1 = cursors s \<Longrightarrow> uc_measure (step s1) < uc_measure s"
  shows "uc_measure s' < uc_measure s"
proof -
  obtain s1 where 1: "patchVnode a b i s = (Inr (), s1)"
    using assms(1) by (auto simp: uc_matched_def split: sum.splits prod.splits)
  obtain s2 where 2: "move s1 = (Inr (), s2)" and 3: "s' = step s2"
    using assms(1) 1 by (auto simp: uc_matched_def split: sum.splits prod.splits)
  have "cursors s2 = cursors s"
    using patchVnode_cursors [OF 1] assms(2) [OF 2] by simp
  then show ?thesis
    unfolding 3 by (rule assms(3))
qed

lemma uc_step_measure:
  assumes "uc_step B p cm s = (Inr u, s')"
    and "oldStartIdx s \<le> oldEndIdx s" and "newStartIdx s \<le> newEndIdx s"
  shows "uc_measure s' < uc_measure s"
proof -
  have m1: "uc_measure (advance_newStart (advance_oldStart s1)) < uc_measure s"
    and m2: "uc_measure (retreat_newEnd (retreat_oldEnd s1)) < uc_measure s"
    and m3: "uc_measure (retreat_newEnd (advance_oldStart s1)) < uc_measure s"
    and m4: "uc_measure (advance_newStart (retreat_oldEnd s1)) < uc_measure s"
    if "cursors s1 = cursors s" for s1
    using that assms(2,3)
    by (auto simp: cursors_def uc_measure_def advance_newStart_def advance_oldStart_def
        retreat_newEnd_def retreat_oldEnd_def)
  have m5: "uc_measure (advance_oldStart s) < uc_measure s"
    and m6: "uc_measure (retreat_oldEnd s) < uc_measure s"
    using assms(2,3)
    by (auto simp: uc_measure_def advance_oldStart_def retreat_oldEnd_def)
  have id: "cursors s2 = cursors s1" if "(Inr (), s1) = (r, s2)" for s1 s2 :: uc_state
    and r :: "error + unit"
    using that by simp
  show ?thesis
    using assms(1) unfolding uc_step_def
    by (auto split: sum.splits bool.splits
        simp: m5 m6
        elim!: uc_matched_measure uc_lookup_branch_measure [OF _ assms(3)]
        dest: move_before_cursors
        intro: m1 m2 m3 m4)
qed

function uc_loop :: "backend \<Rightarrow> elm \<Rightarrow> bool \<Rightarrow> uc_state \<Rightarrow> (error + unit) \<times> uc_state" where
  "uc_loop B parentElm canMove s =
     (if oldStartIdx s \<le> oldEndIdx s \<and> newStartIdx s \<le> newEndIdx s
      then (case uc_step B parentElm canMove s of
              (Inl err, s') \<Rightarrow> (Inl err, s')
            | (Inr u, s') \<Rightarrow> uc_loop B parentElm canMove s')
      else (Inr (), s))"
  by pat_completeness auto
termination
proof (relation "measure (\<lambda>(B, p, cm, s). uc_measure s)", goal_cases)
  case 1
  show ?case by simp
next
  case (2 B parentElm canMove s x y b)
  have "uc_step B parentElm canMove s = (Inr b, y)"
    using 2(2,3) by simp
  then have "uc_measure y < uc_measure s"
    using 2(1) by (auto intro: uc_step_measure)
  then show ?case
    by (simp only: in_measure prod.case)
qed

declare uc_loop.simps [simp del]

definition uc_init :: "vnode list \<Rightarrow> vnode list \<Rightarrow> pstate \<Rightarrow> uc_state" where
  "uc_init och nch w =
     \<lparr>oldStartIdx = 0, newStartIdx = 0,
      oldEndIdx = int (length och) - 1, newEndIdx = int (length nch) - 1,
      oldStartVnode = arr_get och 0,
      oldEndVnode = arr_get och (int (length och) - 1),
      newStartVnode = arr_get nch 0,
      newEndVnode = arr_get nch (int (length nch) - 1),
      oldKeyToIdx = None, oldCh = map Some och, newCh = nch, world = w\<rparr>"

text \<open>After the loop the remaining new children are mounted, or the remaining old
  children removed.\<close>

definition uc_finish ::
  "backend \<Rightarrow> callbacks \<Rightarrow> elm \<Rightarrow> uc_state \<Rightarrow> (error + unit) \<times> uc_state" where
  "uc_finish B cbs parentElm s =
     (if oldStartIdx s > oldEndIdx s then
        (case isUndef (of_option (arr_get (newCh s) (newEndIdx s + 1))) of
           Inl err \<Rightarrow> (Inl err, s)
         | Inr none \<Rightarrow>
             (let refElm = (case arr_get (newCh s) (newEndIdx s + 1) of
                              None \<Rightarrow> None
                            | Some v \<Rightarrow> if none then None else elm v)
              in case addVnodes (Some parentElm) refElm (newCh s)
                        (newStartIdx s) (newEndIdx s) (world s) of
                   (r, w) \<Rightarrow> (r, s\<lparr>world := w\<rparr>)))
      else if newStartIdx s > newEndIdx s then
        (case removeVnodes B cbs (Some parentElm) (oldCh s)
                (oldStartIdx s) (oldEndIdx s) (world s) of
           (r, w) \<Rightarrow> (r, s\<lparr>world := w\<rparr>))
      else (Inr (), s))"

text \<open>\<open>updateChildren\<close>: the duplicate-key check of the new children (outside
  production), the loop, and what follows it. The result holds the two arrays as they
  were left and the effects.\<close>

definition updateChildren ::
  "backend \<Rightarrow> callbacks \<Rightarrow> elm \<Rightarrow> vnode list \<Rightarrow> vnode list \<Rightarrow> bool \<Rightarrow> pstate
     \<Rightarrow> (error + unit) \<times> uc_state" where
  "updateChildren B cbs parentElm och nch removeOnly w =
     (let canMove = \<not> removeOnly in
      case (if production B then (Inr (), w) else checkDuplicateKeys B nch w) of
        (Inl err, w0) \<Rightarrow> (Inl err, uc_init och nch w0)
      | (Inr u, w0) \<Rightarrow>
          (case uc_loop B parentElm canMove (uc_init och nch w0) of
             (Inl err, s) \<Rightarrow> (Inl err, s)
           | (Inr u, s) \<Rightarrow> uc_finish B cbs parentElm s))"

section \<open>Dependencies and the active observer\<close>

text \<open>A watcher and a Dep are objects; each is known by its reference (a Dep by its
  id). The fields of a watcher that the modelled methods read or write:\<close>

type_synonym wid = nat
type_synonym did = nat

record watcher =
  deep :: bool
  user :: bool
  lazy :: bool
  sync :: bool
  dirty :: bool
  active :: bool
  deps :: "did list"
  newDeps :: "did list"
  depIds :: "did set"
  newDepIds :: "did set"
  w_value :: jsval

text \<open>Calls that leave the modelled files: the error handler, a watcher's change
  callback and the scheduler's queue.\<close>

datatype revent = HandleError error wid | Callback wid jsval jsval | QueueWatcher wid

record rstate =
  watchers :: "wid \<Rightarrow> watcher"
  subs :: "did \<Rightarrow> wid list"
  targetStack :: "wid list"
  rlog :: "revent list"

definition upd_watcher :: "wid \<Rightarrow> (watcher \<Rightarrow> watcher) \<Rightarrow> rstate \<Rightarrow> rstate" where
  "upd_watcher w f s = s\<lparr>watchers := (watchers s)(w := f (watchers s w))\<rparr>"

text \<open>Modelled from the spec: the active observer (\<open>Dep.target\<close>, \<open>pushTarget\<close>,
  \<open>popTarget\<close> of \<open>observer/dep\<close>, which is not among the sources). Activation is a
  stack: push before an evaluation, pop after it; the active observer is the top.\<close>

definition Dep_target :: "rstate \<Rightarrow> wid option" where
  "Dep_target s = (case targetStack s of [] \<Rightarrow> None | t # _ \<Rightarrow> Some t)"

definition pushTarget :: "wid \<Rightarrow> rstate \<Rightarrow> rstate" where
  "pushTarget w s = s\<lparr>targetStack := w # targetStack s\<rparr>"

definition popTarget :: "rstate \<Rightarrow> rstate" where
  "popTarget s = s\<lparr>targetStack := tl (targetStack s)\<rparr>"

text \<open>Modelled from the spec: a Dep's subscribers (\<open>addSub\<close>, \<open>removeSub\<close> of
  \<open>observer/dep\<close>): an ordered collection in insertion order, from which a subscriber
  can be removed.\<close>

definition addSub :: "did \<Rightarrow> wid \<Rightarrow> rstate \<Rightarrow> rstate" where
  "addSub d w s = s\<lparr>subs := (subs s)(d := subs s d @ [w])\<rparr>"

definition removeSub :: "did \<Rightarrow> wid \<Rightarrow> rstate \<Rightarrow> rstate" where
  "removeSub d w s = s\<lparr>subs := (subs s)(d := remove1 w (subs s d))\<rparr>"

text \<open>Modelled from the spec: the centralized error handler (\<open>handleError\<close> of
  \<open>core/util\<close>) reports the error and returns.\<close>

definition handleError :: "error \<Rightarrow> wid \<Rightarrow> rstate \<Rightarrow> rstate" where
  "handleError e w s = s\<lparr>rlog := rlog s @ [HandleError e w]\<rparr>"

section \<open>Watcher\<close>

text \<open>\<open>addDep\<close>.\<close>

definition addDep :: "wid \<Rightarrow> did \<Rightarrow> rstate \<Rightarrow> rstate" where
  "addDep w d s =
     (if d \<notin> newDepIds (watchers s w) then
        (let s1 = upd_watcher w (\<lambda>W. W\<lparr>newDepIds := insert d (newDepIds W),
                                         newDeps := newDeps W @ [d]\<rparr>) s
         in if d \<notin> depIds (watchers s w) then addSub d w s1 else s1)
      else s)"

text \<open>Modelled from the spec: \<open>dep.depend()\<close> registers the active observer, if there
  is one, through its \<open>addDep\<close>.\<close>

definition dep_depend :: "did \<Rightarrow> rstate \<Rightarrow> rstate" where
  "dep_depend d s = (case Dep_target s of None \<Rightarrow> s | Some t \<Rightarrow> addDep t d s)"

text \<open>\<open>cleanupDeps\<close>: the loop runs over \<open>deps\<close> from the last entry to the first;
  then the two generations are swapped and the pending one is emptied.\<close>

definition cleanupDeps :: "wid \<Rightarrow> rstate \<Rightarrow> rstate" where
  "cleanupDeps w s =
     (let W = watchers s w;
          s1 = fold (\<lambda>d s'. if d \<notin> newDepIds W then removeSub d w s' else s')
                    (rev (deps W)) s
      in upd_watcher w (\<lambda>W'. W'\<lparr>depIds := newDepIds W, newDepIds := {},
                                  deps := newDeps W, newDeps := []\<rparr>) s1)"

text \<open>
  One run of a watcher's evaluation function and of its callback is user code. What
  the modelled methods see of it: the Deps whose accessors the function reads, in
  order, each read calling \<open>dep.depend()\<close>; whether it returns a value or throws;
  the Deps that \<open>traverse\<close> touches in a value; and whether the change callback
  throws for a pair of values.
\<close>

record evaluation =
  ev_reads :: "did list"
  ev_outcome :: "error + jsval"
  ev_traverse :: "jsval \<Rightarrow> did list"
  ev_cb :: "jsval \<Rightarrow> jsval \<Rightarrow> error option"

text \<open>The \<open>finally\<close> block of \<open>get\<close>.\<close>

definition get_finally :: "evaluation \<Rightarrow> wid \<Rightarrow> jsval \<Rightarrow> rstate \<Rightarrow> rstate" where
  "get_finally E w v s =
     cleanupDeps w (popTarget
       (if deep (watchers s w) then fold dep_depend (ev_traverse E v) s else s))"

text \<open>\<open>get\<close>: the result is the returned value or the exception that leaves the
  method, with the state in either case.\<close>

definition get :: "evaluation \<Rightarrow> wid \<Rightarrow> rstate \<Rightarrow> (error + jsval) \<times> rstate" where
  "get E w s =
     (let s1 = pushTarget w s;
          s2 = fold dep_depend (ev_reads E) s1
      in case ev_outcome E of
           Inr v \<Rightarrow> (Inr v, get_finally E w v s2)
         | Inl e \<Rightarrow>
             if user (watchers s2 w)
             then (Inr JUndefined, get_finally E w JUndefined (handleError e w s2))
             else (Inl e, get_finally E w JUndefined s2))"

text \<open>\<open>run\<close>.\<close>

definition run :: "evaluation \<Rightarrow> wid \<Rightarrow> rstate \<Rightarrow> error option \<times> rstate" where
  "run E w s =
     (if active (watchers s w) then
        (case get E w s of
           (Inl e, s1) \<Rightarrow> (Some e, s1)
         | (Inr v, s1) \<Rightarrow>
             if v \<noteq> w_value (watchers s1 w) \<or> isObject v \<or> deep (watchers s1 w) then
               (let oldValue = w_value (watchers s1 w);
                    s2 = upd_watcher w (\<lambda>W. W\<lparr>w_value := v\<rparr>) s1;
                    s3 = s2\<lparr>rlog := rlog s2 @ [Callback w v oldValue]\<rparr>
                in case ev_cb E v oldValue of
                     None \<Rightarrow> (None, s3)
                   | Some e \<Rightarrow>
                       if user (watchers s3 w) then (None, handleError e w s3)
                       else (Some e, s3))
             else (None, s1))
      else (None, s))"

text \<open>\<open>update\<close>; the scheduler's \<open>queueWatcher\<close> is recorded as a call.\<close>

definition update :: "evaluation \<Rightarrow> wid \<Rightarrow> rstate \<Rightarrow> error option \<times> rstate" where
  "update E w s =
     (if lazy (watchers s w) then (None, upd_watcher w (\<lambda>W. W\<lparr>dirty := True\<rparr>) s)
      else if sync (watchers s w) then run E w s
      else (None, s\<lparr>rlog := rlog s @ [QueueWatcher w]\<rparr>))"

text \<open>\<open>evaluate\<close> and \<open>depend\<close>.\<close>

definition evaluate :: "evaluation \<Rightarrow> wid \<Rightarrow> rstate \<Rightarrow> error option \<times> rstate" where
  "evaluate E w s =
     (case get E w s of
        (Inl e, s1) \<Rightarrow> (Some e, s1)
      | (Inr v, s1) \<Rightarrow> (None, upd_watcher w (\<lambda>W. W\<lparr>w_value := v, dirty := False\<rparr>) s1))"

definition depend :: "wid \<Rightarrow> rstate \<Rightarrow> rstate" where
  "depend w s = fold dep_depend (rev (deps (watchers s w))) s"

text \<open>The getter that \<open>createComputedGetter(key)\<close> returns; \<open>cw\<close> is
  \<open>this._computedWatchers\<close>.\<close>

definition computedGetter ::
  "evaluation \<Rightarrow> (string \<rightharpoonup> wid) \<Rightarrow> string \<Rightarrow> rstate \<Rightarrow> (error + jsval) \<times> rstate" where
  "computedGetter E cw k s =
     (case cw k of
        None \<Rightarrow> (Inr JUndefined, s)
      | Some w \<Rightarrow>
          (case (if dirty (watchers s w) then evaluate E w s else (None, s)) of
             (Some e, s1) \<Rightarrow> (Inl e, s1)
           | (None, s1) \<Rightarrow>
               (let s2 = (if Dep_target s1 \<noteq> None then depend w s1 else s1)
                in (Inr (w_value (watchers s2 w)), s2))))"

section \<open>Rendering a slot\<close>

type_synonym jsobject = "string \<rightharpoonup> jsval"

text \<open>\<open>extend(to, from)\<close> of \<open>core/util\<close> copies every property of \<open>from\<close> into
  \<open>to\<close>.\<close>

definition extend_obj :: "jsobject \<Rightarrow> jsobject \<Rightarrow> jsobject" where
  "extend_obj to from = to ++ from"

text \<open>The component instance as \<open>renderSlot\<close> uses it: the scoped-slot functions,
  the plain slots and \<open>$createElement\<close>. A slot function returns an array of nodes or
  \<open>undefined\<close>; an array is truthy, also when it is empty.\<close>

record 'r slot_instance =
  scopedSlots :: "string \<rightharpoonup> (jsobject \<Rightarrow> vnode list option)"
  slots :: "string \<rightharpoonup> vnode list"
  createElement :: "string \<Rightarrow> jsobject \<Rightarrow> vnode list option \<Rightarrow> 'r"

definition or_fallback :: "vnode list option \<Rightarrow> vnode list option \<Rightarrow> vnode list option" where
  "or_fallback nodes fallback = (case nodes of None \<Rightarrow> fallback | Some ns \<Rightarrow> Some ns)"

definition get_prop :: "jsobject \<Rightarrow> string \<Rightarrow> jsval" where
  "get_prop obj name = (case obj name of None \<Rightarrow> JUndefined | Some v \<Rightarrow> v)"

text \<open>\<open>renderSlot\<close>: the result is the created \<open>template\<close> element or the nodes.\<close>

definition renderSlot ::
  "'r slot_instance \<Rightarrow> string \<Rightarrow> vnode list option \<Rightarrow> jsobject option \<Rightarrow> jsobject option
     \<Rightarrow> 'r + vnode list option" where
  "renderSlot this name fallback props bindObject =
     (let pn =
        (case scopedSlots this name of
           Some scopedSlotFn \<Rightarrow>
             (let props1 = (case props of None \<Rightarrow> Map.empty | Some p \<Rightarrow> p);
                  props2 = (case bindObject of
                              None \<Rightarrow> props1
                            | Some b \<Rightarrow> extend_obj (extend_obj Map.empty b) props1)
              in (Some props2, or_fallback (scopedSlotFn props2) fallback))
         | None \<Rightarrow> (props, or_fallback (slots this name) fallback));
          target = (case fst pn of None \<Rightarrow> JUndefined | Some p \<Rightarrow> get_prop p ''slot'')
      in if truthy target
         then Inl (createElement this ''template'' [''slot'' \<mapsto> target] (snd pn))
         else Inr (snd pn))"

section \<open>Vocabulary of the properties\<close>

text \<open>The fields of a watcher that dependency tracking never writes.\<close>

definition same_flags :: "watcher \<Rightarrow> watcher \<Rightarrow> bool" where
  "same_flags W W' \<longleftrightarrow>
     deep W' = deep W \<and> user W' = user W \<and> lazy W' = lazy W \<and> sync W' = sync W
     \<and> dirty W' = dirty W \<and> active W' = active W \<and> w_value W' = w_value W"

text \<open>The bookkeeping of a watcher is consistent: the id sets mirror the Dep lists, the
  watcher is a subscriber of exactly the Deps of its two generations, and no Dep lists
  a subscriber twice.\<close>

definition tracked :: "wid \<Rightarrow> rstate \<Rightarrow> bool" where
  "tracked w s \<longleftrightarrow>
     set (deps (watchers s w)) = depIds (watchers s w)
     \<and> set (newDeps (watchers s w)) = newDepIds (watchers s w)
     \<and> (\<forall>d. (w \<in> set (subs s d)) = (d \<in> depIds (watchers s w) \<union> newDepIds (watchers s w)))
     \<and> (\<forall>d. distinct (subs s d))"

text \<open>The variable \<open>value\<close> of \<open>get\<close> when the \<open>finally\<close> block runs.\<close>

definition outcome_value :: "evaluation \<Rightarrow> jsval" where
  "outcome_value E = (case ev_outcome E of Inr v \<Rightarrow> v | Inl e \<Rightarrow> JUndefined)"

text \<open>The Deps that \<open>traverse(value)\<close> reads, for a deep watcher.\<close>

definition deep_reads :: "evaluation \<Rightarrow> bool \<Rightarrow> did list" where
  "deep_reads E dp = (if dp then ev_traverse E (outcome_value E) else [])"

text \<open>What \<open>get\<close> reports to the error handler.\<close>

definition handled :: "evaluation \<Rightarrow> wid \<Rightarrow> bool \<Rightarrow> revent list" where
  "handled E w usr = (case ev_outcome E of Inl e \<Rightarrow> if usr then [HandleError e w] else [] | Inr v \<Rightarrow> [])"

text \<open>The Deps read during one evaluation.\<close>

definition reads_of :: "evaluation \<Rightarrow> bool \<Rightarrow> did set" where
  "reads_of E dp = set (ev_reads E) \<union> set (deep_reads E dp)"

text \<open>An observer is a subscriber of every Dep of its two generations.\<close>

definition subscribed :: "wid \<Rightarrow> rstate \<Rightarrow> bool" where
  "subscribed t s \<longleftrightarrow>
     (\<forall>d \<in> depIds (watchers s t) \<union> newDepIds (watchers s t). t \<in> set (subs s d))"

text \<open>The test of \<open>run\<close>, in the words of the specification: the value differs by
  strict inequality, or it is an object, or the watcher is deep.\<close>

definition value_changed :: "jsval \<Rightarrow> jsval \<Rightarrow> bool \<Rightarrow> bool" where
  "value_changed v old dp \<longleftrightarrow> v \<noteq> old \<or> isObject v \<or> dp"

text \<open>The properties handed to a scoped slot, in the words of the specification: the
  explicit props merged over the bound object, an explicit prop overriding a bound entry
  of the same name. \<open>slot_target\<close> is \<open>props && props.slot\<close>.\<close>

definition merged_props :: "jsobject option \<Rightarrow> jsobject option \<Rightarrow> jsobject" where
  "merged_props props bindObject name =
     (case (case props of None \<Rightarrow> None | Some p \<Rightarrow> p name) of
        Some v \<Rightarrow> Some v
      | None \<Rightarrow> (case bindObject of None \<Rightarrow> None | Some b \<Rightarrow> b name))"

definition slot_target :: "jsobject option \<Rightarrow> jsval" where
  "slot_target props =
     (case props of
        None \<Rightarrow> JUndefined
      | Some p \<Rightarrow> (case p ''slot'' of None \<Rightarrow> JUndefined | Some v \<Rightarrow> v))"

section \<open>Example inputs\<close>

text \<open>Text-like input types of the web platform, for the examples.\<close>

definition ex_isText :: "jsval \<Rightarrow> bool" where
  "ex_isText t = (t \<in> {JStr ''text'', JStr ''number'', JStr ''password'', JStr ''search'',
                       JStr ''email'', JStr ''tel'', JStr ''url''})"

text \<open>Decimal notation, which is what the engine prints for an integer of magnitude
  below \<open>10^21\<close>.\<close>

fun digits :: "nat \<Rightarrow> string" where
  "digits n = (if n < 10 then [char_of (48 + n)]
               else digits (n div 10) @ [char_of (48 + n mod 10)])"

declare digits.simps [simp del]

definition decimal :: "int \<Rightarrow> string" where
  "decimal i = (if i < 0 then CHR ''-'' # digits (nat (- i)) else digits (nat i))"

text \<open>A backend without modules, outside production; every element has the parent
  \<open>100\<close> until it is detached. The same backend in a production build, and with one
  module that has a \<open>remove\<close> and a \<open>destroy\<close> callback.\<close>

definition ex_backend :: backend where
  "ex_backend = \<lparr>modules = [],
      parentNode = (\<lambda>tr e. if RemoveChild 100 e \<in> set tr then None else Some 100),
      nextSibling = (\<lambda>tr e. None),
      isTextInputType = ex_isText, production = False,
      numberToString = decimal\<rparr>"

definition ex_production :: backend where
  "ex_production = ex_backend\<lparr>production := True\<rparr>"

definition ex_transition :: backend where
  "ex_transition =
     ex_backend\<lparr>modules := [[''remove'' \<mapsto> (\<lambda>v. RmLater), ''destroy'' \<mapsto> (\<lambda>v. RmNow)]]\<rparr>"

definition ex_world :: pstate where
  "ex_world = \<lparr>trace = [], rms = []\<rparr>"

text \<open>An element with a tag, a key, data without hooks and an optional \<open>type\<close>
  attribute; a text node.\<close>

definition ex_node :: "nat \<Rightarrow> string \<Rightarrow> jskey \<Rightarrow> vattrs option \<Rightarrow> elm option \<Rightarrow> vnode" where
  "ex_node r tg k at e =
     VNode r (Some tg) k (Some \<lparr>attrs = at, hook = None\<rparr>) None e False False None None"

definition ex_text :: vnode where
  "ex_text = VNode 9 None KUndefined None None None False False None None"

text \<open>An element with a destroy hook, one child element and one child text node.\<close>

definition ex_child :: vnode where
  "ex_child = ex_node 2 ''span'' KUndefined None (Some 2)"

definition ex_parent :: vnode where
  "ex_parent =
     VNode 1 (Some ''div'') KUndefined
       (Some \<lparr>attrs = None, hook = Some \<lparr>hook_destroy = True, hook_remove = None\<rparr>\<rparr>)
       (Some [ex_child, ex_text]) (Some 1) False False None None"

text \<open>Keyed list items for the list diff: the old children \<open>a, b, c\<close>, new children
  \<open>d, e\<close> with fresh keys, and new children \<open>b, b, d\<close> with a key that occurs
  twice.\<close>

definition ex_li :: "nat \<Rightarrow> string \<Rightarrow> elm option \<Rightarrow> vnode" where
  "ex_li r k e = ex_node r ''li'' (KStr k) None e"

definition ex_old :: "vnode list" where
  "ex_old = [ex_li 11 ''a'' (Some 1), ex_li 12 ''b'' (Some 2), ex_li 13 ''c'' (Some 3)]"

definition ex_new :: "vnode list" where
  "ex_new = [ex_li 21 ''d'' None, ex_li 22 ''e'' None]"

definition ex_new_dup :: "vnode list" where
  "ex_new_dup = [ex_li 31 ''b'' None, ex_li 32 ''b'' None, ex_li 33 ''d'' None]"

text \<open>A reactive state: the computed watcher \<open>0\<close>, dirty, last evaluated reading
  Dep \<open>1\<close>; the computed watcher \<open>3\<close>, which holds the cached value \<open>42\<close> and
  reads Dep \<open>1\<close> as well; the user watcher \<open>7\<close>, which is being evaluated and has
  read nothing yet.\<close>

definition ex_computed :: watcher where
  "ex_computed = \<lparr>deep = False, user = False, lazy = True, sync = False, dirty = True,
      active = True, deps = [1], newDeps = [], depIds = {1}, newDepIds = {},
      w_value = JNum 0\<rparr>"

definition ex_outer :: watcher where
  "ex_outer = \<lparr>deep = False, user = True, lazy = False, sync = True, dirty = False,
      active = True, deps = [], newDeps = [], depIds = {}, newDepIds = {},
      w_value = JNum 0\<rparr>"

definition ex_cached :: watcher where
  "ex_cached = \<lparr>deep = False, user = False, lazy = True, sync = False, dirty = False,
      active = True, deps = [1], newDeps = [], depIds = {1}, newDepIds = {},
      w_value = JNum 42\<rparr>"

definition ex_rstate :: rstate where
  "ex_rstate = \<lparr>watchers = (\<lambda>x. if x = 0 then ex_computed
                                  else if x = 3 then ex_cached else ex_outer),
      subs = (\<lambda>d. if d = 1 then [0, 3] else []), targetStack = [7], rlog = []\<rparr>"

text \<open>An evaluation that reads Dep \<open>2\<close> and returns \<open>5\<close>, and one that reads Dep
  \<open>2\<close> and throws.\<close>

definition ex_eval :: evaluation where
  "ex_eval = \<lparr>ev_reads = [2], ev_outcome = Inr (JNum 5), ev_traverse = (\<lambda>v. []),
      ev_cb = (\<lambda>v old. None)\<rparr>"

definition ex_eval_throw :: evaluation where
  "ex_eval_throw = \<lparr>ev_reads = [2], ev_outcome = Inl (UserError ''boom''),
      ev_traverse = (\<lambda>v. []), ev_cb = (\<lambda>v old. None)\<rparr>"

text \<open>A component instance with a scoped slot \<open>item\<close> that renders
  nothing and an empty plain slot \<open>default\<close>; \<open>$createElement\<close> returns what it was
  given.\<close>

definition ex_instance :: "(string \<times> jsval option \<times> vnode list option) slot_instance" where
  "ex_instance = \<lparr>scopedSlots = [''item'' \<mapsto> (\<lambda>p. None)], slots = [''default'' \<mapsto> []],
      createElement = (\<lambda>t d ns. (t, d ''slot'', ns))\<rparr>"

section \<open>Properties\<close>

subsection \<open>Dependency tracking: framing\<close>

lemma addDep_frame:
  "targetStack (addDep t d s) = targetStack s \<and> rlog (addDep t d s) = rlog s
   \<and> same_flags (watchers s x) (watchers (addDep t d s) x)
   \<and> deps (watchers (addDep t d s) x) = deps (watchers s x)
   \<and> depIds (watchers (addDep t d s) x) = depIds (watchers s x)
   \<and> (x \<noteq> t \<longrightarrow> watchers (addDep t d s) x = watchers s x)"
  by (auto simp: addDep_def upd_watcher_def addSub_def Let_def same_flags_def)

lemma fold_addDep_frame:
  "targetStack (fold (addDep t) ds s) = targetStack s \<and> rlog (fold (addDep t) ds s) = rlog s
   \<and> same_flags (watchers s x) (watchers (fold (addDep t) ds s) x)
   \<and> deps (watchers (fold (addDep t) ds s) x) = deps (watchers s x)
   \<and> depIds (watchers (fold (addDep t) ds s) x) = depIds (watchers s x)
   \<and> (x \<noteq> t \<longrightarrow> watchers (fold (addDep t) ds s) x = watchers s x)"
proof (induction ds arbitrary: s)
  case Nil show ?case by (simp add: same_flags_def)
next
  case (Cons d ds)
  from Cons[of "addDep t d s"] addDep_frame[of t d s x] show ?case
    by (auto simp: same_flags_def)
qed

lemma fold_dep_depend:
  "fold dep_depend ds s = (case Dep_target s of None \<Rightarrow> s | Some t \<Rightarrow> fold (addDep t) ds s)"
proof (induction ds arbitrary: s)
  case Nil show ?case by (simp split: option.splits)
next
  case (Cons d ds)
  show ?case
  proof (cases "Dep_target s")
    case None
    then show ?thesis using Cons[of s] by (simp add: dep_depend_def)
  next
    case (Some t)
    then have "Dep_target (addDep t d s) = Some t"
      by (simp add: Dep_target_def addDep_frame)
    then show ?thesis using Cons[of "addDep t d s"] Some by (simp add: dep_depend_def)
  qed
qed

subsection \<open>The subscription invariant of a watcher\<close>

lemma addDep_tracked:
  "tracked w s \<Longrightarrow> tracked w (addDep w d s)
     \<and> newDepIds (watchers (addDep w d s) w) = insert d (newDepIds (watchers s w))"
  by (auto simp: tracked_def addDep_def upd_watcher_def addSub_def Let_def)

lemma fold_addDep_tracked:
  "tracked w s \<Longrightarrow> tracked w (fold (addDep w) ds s)
     \<and> newDepIds (watchers (fold (addDep w) ds s) w) = newDepIds (watchers s w) \<union> set ds"
proof (induction ds arbitrary: s)
  case Nil then show ?case by simp
next
  case (Cons d ds)
  from Cons.prems addDep_tracked[of w s d] Cons.IH[of "addDep w d s"] show ?case by auto
qed

lemma addDep_other:
  "t \<noteq> w \<Longrightarrow> (t \<in> set (subs (addDep w d s) d')) = (t \<in> set (subs s d'))"
  by (auto simp: addDep_def upd_watcher_def addSub_def Let_def)

lemma fold_addDep_other:
  "t \<noteq> w \<Longrightarrow> (t \<in> set (subs (fold (addDep w) ds s) d')) = (t \<in> set (subs s d'))"
  by (induction ds arbitrary: s) (auto simp: addDep_other)

text \<open>The loop of \<open>cleanupDeps\<close>.\<close>

lemma cleanup_loop:
  "\<forall>d. distinct (subs s d) \<Longrightarrow>
   (let s' = fold (\<lambda>d s'. if d \<notin> N then removeSub d w s' else s') ds s
    in (\<forall>d. distinct (subs s' d))
       \<and> (\<forall>d x. (x \<in> set (subs s' d)) = (x \<in> set (subs s d) \<and> \<not> (x = w \<and> d \<in> set ds \<and> d \<notin> N)))
       \<and> watchers s' = watchers s \<and> targetStack s' = targetStack s \<and> rlog s' = rlog s)"
proof (induction ds arbitrary: s)
  case Nil then show ?case by simp
next
  case (Cons d ds)
  show ?case
  proof (cases "d \<in> N")
    case True
    with Cons.IH[of s] Cons.prems show ?thesis by (auto simp: Let_def)
  next
    case False
    have d: "\<forall>d'. distinct (subs (removeSub d w s) d')"
      using Cons.prems by (simp add: removeSub_def)
    have m: "(x \<in> set (subs (removeSub d w s) d')) = (x \<in> set (subs s d') \<and> \<not> (x = w \<and> d' = d))" for x d'
      using Cons.prems by (auto simp: removeSub_def)
    have f: "watchers (removeSub d w s) = watchers s" "targetStack (removeSub d w s) = targetStack s"
        "rlog (removeSub d w s) = rlog s"
      by (simp_all add: removeSub_def)
    from Cons.IH[OF d] False m f show ?thesis by (auto simp: Let_def)
  qed
qed

lemma cleanupDeps_post:
  assumes "tracked w s"
  shows "tracked w (cleanupDeps w s)"
    and "depIds (watchers (cleanupDeps w s) w) = newDepIds (watchers s w)"
    and "deps (watchers (cleanupDeps w s) w) = newDeps (watchers s w)"
    and "newDepIds (watchers (cleanupDeps w s) w) = {}"
    and "newDeps (watchers (cleanupDeps w s) w) = []"
    and "(w \<in> set (subs (cleanupDeps w s) d)) = (d \<in> newDepIds (watchers s w))"
    and "targetStack (cleanupDeps w s) = targetStack s"
    and "rlog (cleanupDeps w s) = rlog s"
    and "same_flags (watchers s x) (watchers (cleanupDeps w s) x)"
    and "x \<noteq> w \<Longrightarrow> watchers (cleanupDeps w s) x = watchers s x"
    and "t \<noteq> w \<Longrightarrow> (t \<in> set (subs (cleanupDeps w s) d)) = (t \<in> set (subs s d))"
proof -
  let ?N = "newDepIds (watchers s w)"
  let ?s1 = "fold (\<lambda>d s'. if d \<notin> ?N then removeSub d w s' else s') (rev (deps (watchers s w))) s"
  from assms have dist: "\<forall>d. distinct (subs s d)" by (simp add: tracked_def)
  note L = cleanup_loop[OF dist, of ?N w "rev (deps (watchers s w))", unfolded Let_def]
  have c: "cleanupDeps w s = upd_watcher w (\<lambda>W'. W'\<lparr>depIds := ?N, newDepIds := {},
             deps := newDeps (watchers s w), newDeps := []\<rparr>) ?s1"
    by (simp add: cleanupDeps_def Let_def)
  show "tracked w (cleanupDeps w s)"
    using assms L unfolding c by (auto simp: tracked_def upd_watcher_def)
  show "depIds (watchers (cleanupDeps w s) w) = ?N" unfolding c by (simp add: upd_watcher_def)
  show "deps (watchers (cleanupDeps w s) w) = newDeps (watchers s w)"
    unfolding c by (simp add: upd_watcher_def)
  show "newDepIds (watchers (cleanupDeps w s) w) = {}" unfolding c by (simp add: upd_watcher_def)
  show "newDeps (watchers (cleanupDeps w s) w) = []" unfolding c by (simp add: upd_watcher_def)
  show "(w \<in> set (subs (cleanupDeps w s) d)) = (d \<in> ?N)"
    using assms L unfolding c by (auto simp: tracked_def upd_watcher_def)
  show "targetStack (cleanupDeps w s) = targetStack s" using L unfolding c by (simp add: upd_watcher_def)
  show "rlog (cleanupDeps w s) = rlog s" using L unfolding c by (simp add: upd_watcher_def)
  show "same_flags (watchers s x) (watchers (cleanupDeps w s) x)"
    using L unfolding c by (simp add: upd_watcher_def same_flags_def)
  show "x \<noteq> w \<Longrightarrow> watchers (cleanupDeps w s) x = watchers s x"
    using L unfolding c by (simp add: upd_watcher_def)
  show "t \<noteq> w \<Longrightarrow> (t \<in> set (subs (cleanupDeps w s) d)) = (t \<in> set (subs s d))"
    using L unfolding c by (simp add: upd_watcher_def)
qed

subsection \<open>One evaluation\<close>

lemma tracked_frame:
  "watchers s' = watchers s \<Longrightarrow> subs s' = subs s \<Longrightarrow> tracked w s' = tracked w s"
  by (simp add: tracked_def)

lemma get_unfold:
  "snd (get E w s) =
     cleanupDeps w (popTarget
       (fold (addDep w) (deep_reads E (deep (watchers s w)))
          ((fold (addDep w) (ev_reads E) (pushTarget w s))
             \<lparr>rlog := rlog s @ handled E w (user (watchers s w))\<rparr>)))"
proof -
  let ?s1 = "pushTarget w s"
  let ?s2 = "fold (addDep w) (ev_reads E) ?s1"
  have t1: "Dep_target ?s1 = Some w" by (simp add: Dep_target_def pushTarget_def)
  have s2: "fold dep_depend (ev_reads E) ?s1 = ?s2" by (simp add: fold_dep_depend t1)
  note F = fold_addDep_frame[of w "ev_reads E" ?s1 w, unfolded same_flags_def]
  have fl: "user (watchers ?s2 w) = user (watchers s w)" "deep (watchers ?s2 w) = deep (watchers s w)"
    "rlog ?s2 = rlog s" "targetStack ?s2 = w # targetStack s"
    using F by (simp_all add: pushTarget_def)
  have t2: "Dep_target (?s2\<lparr>rlog := l\<rparr>) = Some w" for l
    using fl by (simp add: Dep_target_def)
  have dp: "deep (watchers (?s2\<lparr>rlog := l\<rparr>) w) = deep (watchers s w)" for l
    using fl by simp
  have fin: "get_finally E w v (?s2\<lparr>rlog := l\<rparr>) =
      cleanupDeps w (popTarget (fold (addDep w) (if deep (watchers s w) then ev_traverse E v else [])
         (?s2\<lparr>rlog := l\<rparr>)))" for v l
    unfolding get_finally_def dp by (simp add: fold_dep_depend t2)
  have same: "?s2\<lparr>rlog := rlog s\<rparr> = ?s2" using fl by simp
  show ?thesis
  proof (cases "ev_outcome E")
    case (Inr v)
    then show ?thesis
      using fin[of v "rlog s"]
      by (simp add: get_def Let_def s2 same handled_def deep_reads_def outcome_value_def)
  next
    case (Inl e)
    show ?thesis
    proof (cases "user (watchers s w)")
      case True
      then show ?thesis using Inl fin[of JUndefined "rlog s @ [HandleError e w]"] fl
        by (simp add: get_def Let_def s2 handled_def deep_reads_def outcome_value_def handleError_def)
    next
      case False
      then show ?thesis using Inl fin[of JUndefined "rlog s"] fl
        by (simp add: get_def Let_def s2 same handled_def deep_reads_def outcome_value_def)
    qed
  qed
qed

lemma get_result:
  "fst (get E w s) =
     (case ev_outcome E of
        Inr v \<Rightarrow> Inr v
      | Inl e \<Rightarrow> if user (watchers s w) then Inr JUndefined else Inl e)"
proof -
  have "Dep_target (pushTarget w s) = Some w" by (simp add: Dep_target_def pushTarget_def)
  then have "user (watchers (fold dep_depend (ev_reads E) (pushTarget w s)) w) = user (watchers s w)"
    using fold_addDep_frame[of w "ev_reads E" "pushTarget w s" w, unfolded same_flags_def]
    by (simp add: fold_dep_depend pushTarget_def)
  then show ?thesis by (simp add: get_def Let_def split: sum.splits)
qed

lemma get_post:
  assumes tr: "tracked w s" and q: "newDepIds (watchers s w) = {}"
  shows "tracked w (snd (get E w s))
     \<and> depIds (watchers (snd (get E w s)) w) = reads_of E (deep (watchers s w))
     \<and> set (deps (watchers (snd (get E w s)) w)) = reads_of E (deep (watchers s w))
     \<and> newDepIds (watchers (snd (get E w s)) w) = {}
     \<and> newDeps (watchers (snd (get E w s)) w) = []
     \<and> (\<forall>d. (w \<in> set (subs (snd (get E w s)) d)) = (d \<in> reads_of E (deep (watchers s w))))"
proof -
  let ?s1 = "pushTarget w s"
  let ?s2 = "fold (addDep w) (ev_reads E) ?s1"
  let ?s3 = "?s2\<lparr>rlog := rlog s @ handled E w (user (watchers s w))\<rparr>"
  let ?s4 = "fold (addDep w) (deep_reads E (deep (watchers s w))) ?s3"
  let ?s5 = "popTarget ?s4"
  have t1: "tracked w ?s1" using tr by (simp add: tracked_def pushTarget_def)
  have n1: "newDepIds (watchers ?s1 w) = {}" using q by (simp add: pushTarget_def)
  from fold_addDep_tracked[OF t1, of "ev_reads E"] n1
  have t2: "tracked w ?s2" and n2: "newDepIds (watchers ?s2 w) = set (ev_reads E)" by auto
  have t3: "tracked w ?s3" using t2 by (simp add: tracked_def)
  have n3: "newDepIds (watchers ?s3 w) = set (ev_reads E)" using n2 by simp
  from fold_addDep_tracked[OF t3, of "deep_reads E (deep (watchers s w))"] n3
  have t4: "tracked w ?s4" and n4: "newDepIds (watchers ?s4 w) = reads_of E (deep (watchers s w))"
    by (auto simp: reads_of_def)
  have t5: "tracked w ?s5" using t4 by (simp add: tracked_def popTarget_def)
  have n5: "newDepIds (watchers ?s5 w) = reads_of E (deep (watchers s w))"
    using n4 by (simp add: popTarget_def)
  have nd5: "set (newDeps (watchers ?s5 w)) = reads_of E (deep (watchers s w))"
    using t5 n5 by (simp add: tracked_def)
  show ?thesis
    unfolding get_unfold
    using cleanupDeps_post(1-6)[OF t5] n5 nd5 by simp
qed

lemma cleanup_loop_frame:
  "watchers (fold (\<lambda>d s'. if d \<notin> N then removeSub d w s' else s') ds s) = watchers s
   \<and> targetStack (fold (\<lambda>d s'. if d \<notin> N then removeSub d w s' else s') ds s) = targetStack s
   \<and> rlog (fold (\<lambda>d s'. if d \<notin> N then removeSub d w s' else s') ds s) = rlog s
   \<and> (t \<noteq> w \<longrightarrow> (t \<in> set (subs (fold (\<lambda>d s'. if d \<notin> N then removeSub d w s' else s') ds s) d'))
                     = (t \<in> set (subs s d')))"
proof (induction ds arbitrary: s)
  case Nil show ?case by simp
next
  case (Cons d ds)
  from Cons[of s] Cons[of "removeSub d w s"] show ?case
    by (auto simp: removeSub_def)
qed

lemma cleanupDeps_frame:
  "targetStack (cleanupDeps w s) = targetStack s \<and> rlog (cleanupDeps w s) = rlog s
   \<and> same_flags (watchers s x) (watchers (cleanupDeps w s) x)
   \<and> (x \<noteq> w \<longrightarrow> watchers (cleanupDeps w s) x = watchers s x)
   \<and> (t \<noteq> w \<longrightarrow> (t \<in> set (subs (cleanupDeps w s) d)) = (t \<in> set (subs s d)))"
  using cleanup_loop_frame[of "newDepIds (watchers s w)" w "rev (deps (watchers s w))" s t d]
  by (simp add: cleanupDeps_def Let_def upd_watcher_def same_flags_def)

lemma get_frame:
  "targetStack (snd (get E w s)) = targetStack s
   \<and> rlog (snd (get E w s)) = rlog s @ handled E w (user (watchers s w))
   \<and> same_flags (watchers s x) (watchers (snd (get E w s)) x)
   \<and> (x \<noteq> w \<longrightarrow> watchers (snd (get E w s)) x = watchers s x)
   \<and> (t \<noteq> w \<longrightarrow> (t \<in> set (subs (snd (get E w s)) d)) = (t \<in> set (subs s d)))"
proof -
  let ?s1 = "pushTarget w s"
  let ?s2 = "fold (addDep w) (ev_reads E) ?s1"
  let ?s3 = "?s2\<lparr>rlog := rlog s @ handled E w (user (watchers s w))\<rparr>"
  let ?s4 = "fold (addDep w) (deep_reads E (deep (watchers s w))) ?s3"
  let ?s5 = "popTarget ?s4"
  note F2 = fold_addDep_frame[of w "ev_reads E" ?s1 x, unfolded same_flags_def]
  note F4 = fold_addDep_frame[of w "deep_reads E (deep (watchers s w))" ?s3 x, unfolded same_flags_def]
  note C = cleanupDeps_frame[of w ?s5 x t d, unfolded same_flags_def]
  have m2: "t \<noteq> w \<longrightarrow> (t \<in> set (subs ?s2 d)) = (t \<in> set (subs s d))"
    by (simp add: fold_addDep_other pushTarget_def)
  have m4: "t \<noteq> w \<longrightarrow> (t \<in> set (subs ?s4 d)) = (t \<in> set (subs ?s3 d))"
    by (simp add: fold_addDep_other)
  have a: "targetStack ?s5 = targetStack s" using F2 F4 by (simp add: popTarget_def pushTarget_def)
  have b: "rlog ?s5 = rlog s @ handled E w (user (watchers s w))"
    using F4 by (simp add: popTarget_def)
  have c: "same_flags (watchers s x) (watchers ?s5 x)"
    using F2 F4 by (simp add: popTarget_def pushTarget_def same_flags_def)
  have d: "x \<noteq> w \<longrightarrow> watchers ?s5 x = watchers s x"
    using F2 F4 by (simp add: popTarget_def pushTarget_def)
  have e: "t \<noteq> w \<longrightarrow> (t \<in> set (subs ?s5 d)) = (t \<in> set (subs s d))"
    using m2 m4 by (simp add: popTarget_def)
  show ?thesis unfolding get_unfold using C a b c d e by (simp add: same_flags_def)
qed

subsection \<open>depend\<close>

lemma addDep_subscribed:
  "subscribed t s \<Longrightarrow> subscribed t (addDep t d s)
     \<and> d \<in> newDepIds (watchers (addDep t d s) t)
     \<and> newDepIds (watchers s t) \<subseteq> newDepIds (watchers (addDep t d s) t)"
  by (auto simp: subscribed_def addDep_def upd_watcher_def addSub_def Let_def)

lemma fold_addDep_subscribed:
  "subscribed t s \<Longrightarrow> subscribed t (fold (addDep t) ds s)
     \<and> set ds \<union> newDepIds (watchers s t) \<subseteq> newDepIds (watchers (fold (addDep t) ds s) t)"
proof (induction ds arbitrary: s)
  case Nil then show ?case by simp
next
  case (Cons d ds)
  from Cons.prems addDep_subscribed[of t s d] Cons.IH[of "addDep t d s"] show ?case by auto
qed

lemma depend_post:
  assumes "Dep_target s = Some t" and "subscribed t s"
  shows "(\<forall>d \<in> set (deps (watchers s w)).
            d \<in> newDepIds (watchers (depend w s) t) \<and> t \<in> set (subs (depend w s) d))
         \<and> deps (watchers (depend w s) w) = deps (watchers s w)
         \<and> same_flags (watchers s w) (watchers (depend w s) w)"
proof -
  let ?ds = "rev (deps (watchers s w))"
  have d: "depend w s = fold (addDep t) ?ds s"
    using assms(1) by (simp add: depend_def fold_dep_depend)
  from fold_addDep_subscribed[OF assms(2), of ?ds]
  have "subscribed t (depend w s)"
    and "set (deps (watchers s w)) \<subseteq> newDepIds (watchers (depend w s) t)"
    unfolding d by auto
  then have "\<forall>d \<in> set (deps (watchers s w)).
            d \<in> newDepIds (watchers (depend w s) t) \<and> t \<in> set (subs (depend w s) d)"
    by (auto simp: subscribed_def)
  then show ?thesis
    unfolding d using fold_addDep_frame[of t ?ds s w] by simp
qed

lemma get_subscribed_other:
  assumes "t \<noteq> w" and "subscribed t s"
  shows "subscribed t (snd (get E w s))"
  using assms get_frame[of E w s t t] unfolding subscribed_def by auto

subsection \<open>Claims on the watcher\<close>

text \<open>
  C4. After an evaluation of a watcher by \<open>get\<close>, started with consistent bookkeeping
  and an empty pending generation, the current generation is exactly the set of Deps read
  during the evaluation, the pending generation is empty again, and the watcher is a
  subscriber of a Dep exactly when the evaluation read it; in particular it is no longer
  a subscriber of a Dep of the previous generation that was not read.
\<close>

theorem get_tracks_reads:
  assumes "tracked w s" and "newDepIds (watchers s w) = {}"
  shows "depIds (watchers (snd (get E w s)) w) = reads_of E (deep (watchers s w))
       \<and> set (deps (watchers (snd (get E w s)) w)) = reads_of E (deep (watchers s w))
       \<and> newDepIds (watchers (snd (get E w s)) w) = {}
       \<and> newDeps (watchers (snd (get E w s)) w) = []
       \<and> (\<forall>d. (w \<in> set (subs (snd (get E w s)) d)) = (d \<in> reads_of E (deep (watchers s w))))
       \<and> (\<forall>d \<in> depIds (watchers s w) - reads_of E (deep (watchers s w)).
             w \<notin> set (subs (snd (get E w s)) d))
       \<and> tracked w (snd (get E w s))"
  using get_post[OF assms, of E] by auto

theorem get_tracks_reads_witness:
  "tracked 0 ex_rstate \<and> newDepIds (watchers ex_rstate 0) = {}
   \<and> depIds (watchers ex_rstate 0) = {1}
   \<and> depIds (watchers (snd (get ex_eval 0 ex_rstate)) 0) = {2}
   \<and> 0 \<notin> set (subs (snd (get ex_eval 0 ex_rstate)) 1)
   \<and> 0 \<in> set (subs (snd (get ex_eval 0 ex_rstate)) 2)"
proof -
  have t: "tracked 0 ex_rstate"
    by (simp add: tracked_def ex_rstate_def ex_computed_def)
  have n: "newDepIds (watchers ex_rstate 0) = {}"
    by (simp add: ex_rstate_def ex_computed_def)
  have r: "reads_of ex_eval (deep (watchers ex_rstate 0)) = {2}"
    by (simp add: reads_of_def deep_reads_def ex_eval_def ex_rstate_def ex_computed_def)
  have d: "depIds (watchers ex_rstate 0) = {1}"
    by (simp add: ex_rstate_def ex_computed_def)
  from get_tracks_reads [OF t n, of ex_eval] show ?thesis
    unfolding r using t n d by simp
qed

text \<open>
  C7. When the evaluation function throws inside \<open>get\<close>: for a user watcher the error
  goes to the error handler and \<open>get\<close> returns normally; for any other watcher the
  error leaves \<open>get\<close>. In both cases the stack of active observers is as it was before
  the call, so the outer watcher is the active one again, and the dependency cleanup has
  run: the pending generation is empty and the subscriptions are those of the reads made
  before the throw.
\<close>

theorem get_throw_restores:
  assumes "ev_outcome E = Inl e"
  shows "(user (watchers s w) \<longrightarrow>
            fst (get E w s) = Inr JUndefined
            \<and> rlog (snd (get E w s)) = rlog s @ [HandleError e w])
       \<and> (\<not> user (watchers s w) \<longrightarrow>
            fst (get E w s) = Inl e \<and> rlog (snd (get E w s)) = rlog s)
       \<and> targetStack (snd (get E w s)) = targetStack s
       \<and> Dep_target (snd (get E w s)) = Dep_target s
       \<and> (tracked w s \<and> newDepIds (watchers s w) = {} \<longrightarrow>
            newDepIds (watchers (snd (get E w s)) w) = {}
            \<and> newDeps (watchers (snd (get E w s)) w) = []
            \<and> depIds (watchers (snd (get E w s)) w) = reads_of E (deep (watchers s w))
            \<and> (\<forall>d. (w \<in> set (subs (snd (get E w s)) d))
                     = (d \<in> reads_of E (deep (watchers s w)))))"
  using assms get_frame[of E w s w] get_result[of E w s] get_post[of w s E]
  by (auto simp: handled_def Dep_target_def)

theorem get_throw_restores_witness:
  "ev_outcome ex_eval_throw = Inl (UserError ''boom'')
   \<and> \<not> user (watchers ex_rstate 0)
   \<and> fst (get ex_eval_throw 0 ex_rstate) = Inl (UserError ''boom'')
   \<and> Dep_target (snd (get ex_eval_throw 0 ex_rstate)) = Some 7
   \<and> depIds (watchers (snd (get ex_eval_throw 0 ex_rstate)) 0) = {2}
   \<and> user (watchers ex_rstate 7)
   \<and> fst (get ex_eval_throw 7 ex_rstate) = Inr JUndefined
   \<and> rlog (snd (get ex_eval_throw 7 ex_rstate)) = [HandleError (UserError ''boom'') 7]
   \<and> Dep_target (snd (get ex_eval_throw 7 ex_rstate)) = Some 7"
proof -
  have o: "ev_outcome ex_eval_throw = Inl (UserError ''boom'')"
    by (simp add: ex_eval_throw_def)
  have t: "tracked 0 ex_rstate \<and> newDepIds (watchers ex_rstate 0) = {}"
    by (simp add: tracked_def ex_rstate_def ex_computed_def)
  have r: "reads_of ex_eval_throw (deep (watchers ex_rstate 0)) = {2}"
    by (simp add: reads_of_def deep_reads_def ex_eval_throw_def ex_rstate_def ex_computed_def)
  have u: "\<not> user (watchers ex_rstate 0)" "user (watchers ex_rstate 7)"
    "Dep_target ex_rstate = Some 7" "rlog ex_rstate = []"
    by (simp_all add: ex_rstate_def ex_computed_def ex_outer_def Dep_target_def)
  from get_throw_restores [OF o, of ex_rstate 0] get_throw_restores [OF o, of ex_rstate 7]
  show ?thesis unfolding r using o t u by simp
qed

text \<open>
  C5. When \<open>run\<close> executes on an active watcher and the evaluation yields the value
  \<open>v\<close>: the stored value is replaced by \<open>v\<close> and the callback is called with \<open>v\<close> and
  the old value exactly when \<open>v\<close> differs from the stored value, or is an object, or the
  watcher is deep; otherwise the stored value stays and no callback is called. (An error
  thrown by a user watcher's callback goes to the error handler.)
\<close>

theorem run_callback_iff:
  assumes "active (watchers s w)" and "fst (get E w s) = Inr v"
  shows "w_value (watchers (snd (run E w s)) w)
           = (if value_changed v (w_value (watchers s w)) (deep (watchers s w)) then v
              else w_value (watchers s w))
       \<and> rlog (snd (run E w s))
           = rlog (snd (get E w s))
             @ (if value_changed v (w_value (watchers s w)) (deep (watchers s w))
                then Callback w v (w_value (watchers s w))
                     # (case ev_cb E v (w_value (watchers s w)) of
                          None \<Rightarrow> []
                        | Some e \<Rightarrow> if user (watchers s w) then [HandleError e w] else [])
                else [])"
proof -
  obtain s1 where g: "get E w s = (Inr v, s1)" using assms(2) by (cases "get E w s") auto
  have s1: "s1 = snd (get E w s)" using g by simp
  from get_frame[of E w s w, unfolded same_flags_def] s1
  have fl: "w_value (watchers s1 w) = w_value (watchers s w)" "deep (watchers s1 w) = deep (watchers s w)"
    "user (watchers s1 w) = user (watchers s w)" by simp_all
  show ?thesis
    using assms(1) g fl
    by (auto simp: run_def value_changed_def Let_def upd_watcher_def handleError_def
        split: option.splits)
qed

theorem run_callback_iff_witness:
  "active (watchers ex_rstate 7) \<and> fst (get ex_eval 7 ex_rstate) = Inr (JNum 5)
   \<and> value_changed (JNum 5) (w_value (watchers ex_rstate 7)) (deep (watchers ex_rstate 7))
   \<and> w_value (watchers (snd (run ex_eval 7 ex_rstate)) 7) = JNum 5
   \<and> rlog (snd (run ex_eval 7 ex_rstate)) = [Callback 7 (JNum 5) (JNum 0)]"
proof -
  have a: "active (watchers ex_rstate 7)"
    by (simp add: ex_rstate_def ex_outer_def)
  have g: "fst (get ex_eval 7 ex_rstate) = Inr (JNum 5)"
    by (simp add: get_result ex_eval_def)
  have l: "rlog (snd (get ex_eval 7 ex_rstate)) = []"
    using get_frame [of ex_eval 7 ex_rstate 7]
    by (simp add: handled_def ex_eval_def ex_rstate_def)
  have c: "value_changed (JNum 5) (w_value (watchers ex_rstate 7)) (deep (watchers ex_rstate 7))"
    "w_value (watchers ex_rstate 7) = JNum 0" "ev_cb ex_eval (JNum 5) (JNum 0) = None"
    by (simp_all add: value_changed_def ex_rstate_def ex_outer_def ex_eval_def)
  from run_callback_iff [OF a g] show ?thesis
    using a g c l by simp
qed

subsection \<open>Claims on computed properties\<close>

lemma evaluate_returns:
  assumes "ev_outcome E = Inr v"
  shows "fst (evaluate E w s) = None
       \<and> snd (evaluate E w s)
           = upd_watcher w (\<lambda>W. W\<lparr>w_value := v, dirty := False\<rparr>) (snd (get E w s))"
  using assms get_result[of E w s]
  by (cases "get E w s") (auto simp: evaluate_def)

lemma subscribed_upd_flags:
  "subscribed t (upd_watcher w (\<lambda>W. W\<lparr>w_value := v, dirty := b\<rparr>) s) = subscribed t s"
  by (auto simp: subscribed_def upd_watcher_def)

lemma tracked_upd_flags:
  "tracked x (upd_watcher w (\<lambda>W. W\<lparr>w_value := v, dirty := b\<rparr>) s) = tracked x s"
  by (auto simp: tracked_def upd_watcher_def)

text \<open>
  C3. A read of a computed property through the getter made by \<open>createComputedGetter\<close>:
  when the watcher is not dirty, the cached value is returned and the only effect is
  \<open>depend\<close> (the evaluation does not occur in the result); when it is dirty and the
  evaluation returns, the result is the new value, which is stored, \<open>dirty\<close> is false,
  and the watcher tracks the Deps that the evaluation read. A notification (\<open>update\<close>)
  of a lazy watcher sets \<open>dirty\<close> and does nothing else. After the read, an active
  outer observer has every Dep tracked by the computed watcher in its pending generation
  and is a subscriber of it. (When the evaluation throws there is no result to cache: the
  error leaves the getter and the watcher stays dirty.)
\<close>

theorem computed_read:
  assumes "cw k = Some w"
  shows "(\<not> dirty (watchers s w) \<longrightarrow>
            computedGetter E cw k s
              = (Inr (w_value (watchers s w)), if Dep_target s = None then s else depend w s))
       \<and> (dirty (watchers s w) \<and> ev_outcome E = Inr v \<longrightarrow>
            fst (computedGetter E cw k s) = Inr v
            \<and> \<not> dirty (watchers (snd (computedGetter E cw k s)) w)
            \<and> w_value (watchers (snd (computedGetter E cw k s)) w) = v
            \<and> (tracked w s \<and> newDepIds (watchers s w) = {} \<longrightarrow>
                 set (deps (watchers (snd (computedGetter E cw k s)) w))
                   = reads_of E (deep (watchers s w))))
       \<and> (lazy (watchers s w) \<longrightarrow>
            update E w s = (None, upd_watcher w (\<lambda>W. W\<lparr>dirty := True\<rparr>) s))
       \<and> (\<forall>t. Dep_target s = Some t \<and> t \<noteq> w \<and> subscribed t s
                \<and> (dirty (watchers s w) \<longrightarrow> (\<exists>v'. ev_outcome E = Inr v')) \<longrightarrow>
              (\<forall>d \<in> set (deps (watchers (snd (computedGetter E cw k s)) w)).
                 d \<in> newDepIds (watchers (snd (computedGetter E cw k s)) t)
                 \<and> t \<in> set (subs (snd (computedGetter E cw k s)) d)))
       \<and> (dirty (watchers s w) \<and> ev_outcome E = Inl err \<and> \<not> user (watchers s w) \<longrightarrow>
            fst (computedGetter E cw k s) = Inl err
            \<and> dirty (watchers (snd (computedGetter E cw k s)) w))"
proof (intro conjI impI allI)
  assume nd: "\<not> dirty (watchers s w)"
  show "computedGetter E cw k s
          = (Inr (w_value (watchers s w)), if Dep_target s = None then s else depend w s)"
  proof (cases "Dep_target s")
    case None
    then show ?thesis using assms nd by (simp add: computedGetter_def)
  next
    case (Some t)
    have "w_value (watchers (depend w s) w) = w_value (watchers s w)"
      using fold_addDep_frame[of t "rev (deps (watchers s w))" s w] Some
      by (simp add: depend_def fold_dep_depend same_flags_def)
    then show ?thesis using assms nd Some by (simp add: computedGetter_def)
  qed
next
  assume a: "dirty (watchers s w) \<and> ev_outcome E = Inr v"
  let ?s1 = "snd (evaluate E w s)"
  let ?s2 = "if Dep_target ?s1 \<noteq> None then depend w ?s1 else ?s1"
  from a evaluate_returns[of E v w s]
  have ev: "fst (evaluate E w s) = None"
    "?s1 = upd_watcher w (\<lambda>W. W\<lparr>w_value := v, dirty := False\<rparr>) (snd (get E w s))" by simp_all
  have cg: "computedGetter E cw k s = (Inr (w_value (watchers ?s2 w)), ?s2)"
    using assms a ev(1) by (cases "evaluate E w s") (simp add: computedGetter_def Let_def)
  have fl1: "w_value (watchers ?s1 w) = v" "\<not> dirty (watchers ?s1 w)"
    "deps (watchers ?s1 w) = deps (watchers (snd (get E w s)) w)"
    unfolding ev(2) by (simp_all add: upd_watcher_def)
  have dep: "same_flags (watchers ?s1 w) (watchers (depend w ?s1) w)
      \<and> deps (watchers (depend w ?s1) w) = deps (watchers ?s1 w)"
  proof (cases "Dep_target ?s1")
    case None
    then show ?thesis by (simp add: depend_def fold_dep_depend same_flags_def)
  next
    case (Some t)
    then show ?thesis
      using fold_addDep_frame[of t "rev (deps (watchers ?s1 w))" ?s1 w]
      by (simp add: depend_def fold_dep_depend)
  qed
  have fl2: "w_value (watchers ?s2 w) = v" "\<not> dirty (watchers ?s2 w)"
    "deps (watchers ?s2 w) = deps (watchers (snd (get E w s)) w)"
    using fl1 dep by (auto simp: same_flags_def)
  show "fst (computedGetter E cw k s) = Inr v" unfolding cg using fl2 by simp
  show "\<not> dirty (watchers (snd (computedGetter E cw k s)) w)" unfolding cg using fl2 by simp
  show "w_value (watchers (snd (computedGetter E cw k s)) w) = v" unfolding cg using fl2 by simp
  assume "tracked w s \<and> newDepIds (watchers s w) = {}"
  then show "set (deps (watchers (snd (computedGetter E cw k s)) w)) = reads_of E (deep (watchers s w))"
    unfolding cg using fl2 get_post[of w s E] by simp
next
  assume "lazy (watchers s w)"
  then show "update E w s = (None, upd_watcher w (\<lambda>W. W\<lparr>dirty := True\<rparr>) s)"
    by (simp add: update_def)
next
  fix t
  assume a: "Dep_target s = Some t \<and> t \<noteq> w \<and> subscribed t s
                \<and> (dirty (watchers s w) \<longrightarrow> (\<exists>v'. ev_outcome E = Inr v'))"
  let ?r = "snd (computedGetter E cw k s)"
  show "\<forall>d \<in> set (deps (watchers ?r w)). d \<in> newDepIds (watchers ?r t) \<and> t \<in> set (subs ?r d)"
  proof (cases "dirty (watchers s w)")
    case False
    then have "?r = depend w s" using assms a by (simp add: computedGetter_def Let_def)
    then show ?thesis using depend_post[of s t w] a by simp
  next
    case True
    with a obtain v' where v': "ev_outcome E = Inr v'" by auto
    let ?s1 = "snd (evaluate E w s)"
    from evaluate_returns[OF v', of w s]
    have ev: "fst (evaluate E w s) = None"
      "?s1 = upd_watcher w (\<lambda>W. W\<lparr>w_value := v', dirty := False\<rparr>) (snd (get E w s))" by simp_all
    have ts: "Dep_target ?s1 = Some t"
      using a get_frame[of E w s w] unfolding ev(2) by (simp add: Dep_target_def upd_watcher_def)
    have sb: "subscribed t ?s1"
      unfolding ev(2) subscribed_upd_flags using get_subscribed_other[of t w s E] a by simp
    have "?r = depend w ?s1"
      using assms True ev(1) ts by (cases "evaluate E w s") (simp add: computedGetter_def Let_def)
    then show ?thesis using depend_post[OF ts sb, of w] by simp
  qed
next
  assume a: "dirty (watchers s w) \<and> ev_outcome E = Inl err \<and> \<not> user (watchers s w)"
  obtain r s1 where g: "get E w s = (r, s1)" by (cases "get E w s")
  have r: "r = Inl err" using a g get_result [of E w s] by simp
  have d: "dirty (watchers s1 w)"
    using a g get_frame [of E w s w] by (simp add: same_flags_def)
  have c: "computedGetter E cw k s = (Inl err, s1)"
    using assms a g r by (simp add: computedGetter_def evaluate_def)
  show "fst (computedGetter E cw k s) = Inl err" unfolding c by simp
  show "dirty (watchers (snd (computedGetter E cw k s)) w)" unfolding c using d by simp
qed

theorem computed_read_witness:
  "[''total'' \<mapsto> 0, ''cached'' \<mapsto> 3] ''total'' = Some (0::nat)
   \<and> dirty (watchers ex_rstate 0) \<and> ev_outcome ex_eval = Inr (JNum 5)
   \<and> lazy (watchers ex_rstate 0)
   \<and> Dep_target ex_rstate = Some 7 \<and> subscribed 7 ex_rstate
   \<and> fst (computedGetter ex_eval [''total'' \<mapsto> 0, ''cached'' \<mapsto> 3] ''total'' ex_rstate)
       = Inr (JNum 5)
   \<and> \<not> dirty (watchers (snd (computedGetter ex_eval [''total'' \<mapsto> 0, ''cached'' \<mapsto> 3]
                                 ''total'' ex_rstate)) 0)
   \<and> set (deps (watchers (snd (computedGetter ex_eval [''total'' \<mapsto> 0, ''cached'' \<mapsto> 3]
                                 ''total'' ex_rstate)) 0)) = {2}
   \<and> 7 \<in> set (subs (snd (computedGetter ex_eval [''total'' \<mapsto> 0, ''cached'' \<mapsto> 3]
                            ''total'' ex_rstate)) 2)
   \<and> [''total'' \<mapsto> 0, ''cached'' \<mapsto> 3] ''cached'' = Some (3::nat)
   \<and> \<not> dirty (watchers ex_rstate 3)
   \<and> computedGetter ex_eval [''total'' \<mapsto> 0, ''cached'' \<mapsto> 3] ''cached'' ex_rstate
       = (Inr (JNum 42), depend 3 ex_rstate)
   \<and> ev_outcome ex_eval_throw = Inl (UserError ''boom'')
   \<and> fst (computedGetter ex_eval_throw [''total'' \<mapsto> 0, ''cached'' \<mapsto> 3] ''total''
             ex_rstate) = Inl (UserError ''boom'')"
proof -
  let ?cw = "[''total'' \<mapsto> (0::nat), ''cached'' \<mapsto> 3]"
  have k: "?cw ''total'' = Some 0" "?cw ''cached'' = Some 3" by simp_all
  have h: "dirty (watchers ex_rstate 0)" "ev_outcome ex_eval = Inr (JNum 5)"
    "lazy (watchers ex_rstate 0)" "Dep_target ex_rstate = Some 7" "subscribed 7 ex_rstate"
    "tracked 0 ex_rstate" "newDepIds (watchers ex_rstate 0) = {}"
    "\<not> dirty (watchers ex_rstate 3)" "w_value (watchers ex_rstate 3) = JNum 42"
    "ev_outcome ex_eval_throw = Inl (UserError ''boom'')" "\<not> user (watchers ex_rstate 0)"
    by (simp_all add: ex_rstate_def ex_computed_def ex_cached_def ex_outer_def ex_eval_def
        ex_eval_throw_def Dep_target_def subscribed_def tracked_def)
  have r: "reads_of ex_eval (deep (watchers ex_rstate 0)) = {2}"
    by (simp add: reads_of_def deep_reads_def ex_eval_def ex_rstate_def ex_computed_def)
  from computed_read [where cw = ?cw and k = "''total''" and w = 0 and s = ex_rstate
      and E = ex_eval and v = "JNum 5"]
  have a: "fst (computedGetter ex_eval ?cw ''total'' ex_rstate) = Inr (JNum 5)
   \<and> \<not> dirty (watchers (snd (computedGetter ex_eval ?cw ''total'' ex_rstate)) 0)
   \<and> set (deps (watchers (snd (computedGetter ex_eval ?cw ''total'' ex_rstate)) 0)) = {2}
   \<and> 7 \<in> set (subs (snd (computedGetter ex_eval ?cw ''total'' ex_rstate)) 2)"
    unfolding r using k h by auto
  from computed_read [where cw = ?cw and k = "''cached''" and w = 3 and s = ex_rstate
      and E = ex_eval]
  have b: "computedGetter ex_eval ?cw ''cached'' ex_rstate = (Inr (JNum 42), depend 3 ex_rstate)"
    using k h by simp
  from computed_read [where cw = ?cw and k = "''total''" and w = 0 and s = ex_rstate
      and E = ex_eval_throw and err = "UserError ''boom''"]
  have c: "fst (computedGetter ex_eval_throw ?cw ''total'' ex_rstate) = Inl (UserError ''boom'')"
    using k h by simp
  from a b c k h show ?thesis by simp
qed

subsection \<open>Rendering a slot\<close>

lemma merged_props_eq:
  "(case bindObject of
      None \<Rightarrow> (case props of None \<Rightarrow> Map.empty | Some p \<Rightarrow> p)
    | Some b \<Rightarrow> extend_obj (extend_obj Map.empty b)
                  (case props of None \<Rightarrow> Map.empty | Some p \<Rightarrow> p))
   = merged_props props bindObject"
  by (rule ext) (auto simp: merged_props_def extend_obj_def map_add_def split: option.splits)

text \<open>
  C10. \<open>renderSlot\<close> resolves the content of a slot at two levels. If there is a
  scoped-slot function for the name, it is called with the props merged over the bound
  object and its result is used, the fallback replacing a falsy result; otherwise the
  plain slot of that name is used, the fallback replacing an absent one. When the
  effective props carry a truthy \<open>slot\<close>, the result is one \<open>template\<close> element with
  that slot and the resolved nodes as children; otherwise the nodes themselves.
\<close>

theorem renderSlot_resolution:
  "renderSlot this name fallback props bindObject =
     (let effective = (if scopedSlots this name \<noteq> None
                       then Some (merged_props props bindObject) else props);
          nodes = (case scopedSlots this name of
                     Some scopedSlotFn \<Rightarrow>
                       (case scopedSlotFn (merged_props props bindObject) of
                          None \<Rightarrow> fallback
                        | Some ns \<Rightarrow> Some ns)
                   | None \<Rightarrow>
                       (case slots this name of None \<Rightarrow> fallback | Some ns \<Rightarrow> Some ns))
      in if truthy (slot_target effective)
         then Inl (createElement this ''template'' [''slot'' \<mapsto> slot_target effective] nodes)
         else Inr nodes)"
proof (cases "scopedSlots this name")
  case None
  then show ?thesis
    by (simp add: renderSlot_def Let_def or_fallback_def slot_target_def get_prop_def
        split: option.splits)
next
  case (Some f)
  then show ?thesis
    unfolding renderSlot_def Let_def
    by (simp add: merged_props_eq or_fallback_def slot_target_def get_prop_def
        split: option.splits)
qed

theorem renderSlot_resolution_witness:
  "renderSlot ex_instance ''item'' (Some [ex_text]) (Some [''a'' \<mapsto> JNum 1])
       (Some [''slot'' \<mapsto> JStr ''header'', ''a'' \<mapsto> JNum 2])
     = Inl (''template'', Some (JStr ''header''), Some [ex_text])
   \<and> renderSlot ex_instance ''default'' (Some [ex_text]) None
       (Some [''slot'' \<mapsto> JStr ''header''])
     = Inr (Some [])"
  using renderSlot_resolution [of ex_instance "''item''" "Some [ex_text]"
      "Some [''a'' \<mapsto> JNum 1]" "Some [''slot'' \<mapsto> JStr ''header'', ''a'' \<mapsto> JNum 2]"]
    renderSlot_resolution [of ex_instance "''default''" "Some [ex_text]" None
      "Some [''slot'' \<mapsto> JStr ''header'']"]
  by (simp add: ex_instance_def merged_props_def slot_target_def Let_def)

subsection \<open>The unbound name in \<open>patch.js\<close>\<close>

text \<open>Of the helpers of \<open>core/util\<close> that \<open>patch.js\<close> calls, \<open>isUndef\<close> and
  \<open>isTrue\<close> are bound and \<open>isDef\<close> is not: every call of it raises.\<close>

lemma lookup_isDef: "lookup_name ''isDef'' = Inl ReferenceError"
  by (simp add: lookup_name_def patch_imports_def)

lemma lookup_isUndef: "lookup_name ''isUndef'' = Inr ()"
  by (simp add: lookup_name_def patch_imports_def)

lemma lookup_isTrue: "lookup_name ''isTrue'' = Inr ()"
  by (simp add: lookup_name_def patch_imports_def)

lemma isDef_raises: "isDef v = Inl ReferenceError"
  by (simp add: isDef_def lookup_isDef)

lemma isDef_of_raises: "isDef_of x = Inl ReferenceError"
  by (simp add: isDef_of_def isDef_raises)

lemma isUndef_returns: "isUndef v = Inr (v = Undefined \<or> v = Null)"
  by (simp add: isUndef_def lookup_isUndef)

lemma isTrue_returns: "isTrue v = Inr v"
  by (simp add: isTrue_def lookup_isTrue)

lemma sameVnode_agreeing:
  "key a = key b \<Longrightarrow> tag a = tag b \<Longrightarrow> isComment a = isComment b
     \<Longrightarrow> sameVnode B (Some a) (Some b) = Inl ReferenceError"
  by (simp add: sameVnode_def sameElement_def isDef_raises)

lemma sameVnode_other_key: "key a \<noteq> key b \<Longrightarrow> sameVnode B (Some a) (Some b) = Inr False"
  by (simp add: sameVnode_def)

lemma invokeDestroyHook_raises: "invokeDestroyHook B cbs v w = (Inl ReferenceError, w)"
  by (simp add: invokeDestroyHook.simps [of B cbs v w] isDef_of_raises)

lemma removeNode_raises: "removeNode B el w = (Inl ReferenceError, w)"
  by (simp add: removeNode_def isDef_of_raises)

lemma removeAndInvokeRemoveHook_raises:
  "removeAndInvokeRemoveHook B cbs v rm w = (Inl ReferenceError, w)"
  by (simp add: removeAndInvokeRemoveHook.simps [of B cbs v rm w] rm_or_data_def isDef_raises)

lemma removeVnode_at_raises: "removeVnode_at B cbs vnodes i w = (Inl ReferenceError, w)"
  by (simp add: removeVnode_at_def isDef_of_raises)

lemma createElm_raises: "createElm v p e i w = (Inl ReferenceError, w)"
  by (simp add: createElm_def lookup_isDef)

lemma collect_hook_raises: "ms \<noteq> [] \<Longrightarrow> collect_hook h ms acc = Inl ReferenceError"
  by (cases ms) (simp_all add: isDef_of_raises)

lemma createPatchFunction_raises:
  "modules B \<noteq> [] \<Longrightarrow> createPatchFunction B = Inl ReferenceError"
  by (simp add: createPatchFunction_def hooks_def collect_hook_raises)

lemma createPatchFunction_no_modules:
  "modules B = [] \<Longrightarrow> createPatchFunction B = Inr (\<lambda>h. [])"
  by (auto simp: createPatchFunction_def hooks_def fun_eq_iff)

lemma checkDuplicateKeys_raises:
  "chs \<noteq> [] \<Longrightarrow> checkDuplicateKeys B chs w = (Inl ReferenceError, w)"
  by (cases chs) (simp_all add: checkDuplicateKeys_def isDef_raises)

lemma createKeyToOldIdx_raises:
  "slot_get chs b \<noteq> None \<Longrightarrow> b \<le> e \<Longrightarrow> createKeyToOldIdx B chs b e = Inl ReferenceError"
  by (auto simp: createKeyToOldIdx_def upto.simps [of b e] isDef_raises)

lemmas ex_nodes = ex_old_def ex_new_def ex_new_dup_def ex_li_def ex_node_def

lemmas uc_eval = uc_loop.simps uc_step_def uc_lookup_branch_def ensure_map_def uc_init_def
  isUndef_returns of_option_def arr_get_def slot_get_def sameVnode_def

text \<open>
  C1. By the specification \<open>sameVnode(a, b)\<close> holds exactly when the keys are equal and
  either the tags, the comment flags and the presence of data agree (with agreeing input
  types for an \<open>input\<close>), or both nodes are placeholders of one asynchronous factory
  without error. In \<open>patch.js\<close> as it is written the first alternative cannot be
  decided: once key, tag and comment flag agree, \<open>isDef(a.data)\<close> is evaluated, and the
  name \<open>isDef\<close> is not bound. Two list items with the key \<open>a\<close>, which are the same
  node by the rule, make the call raise a ReferenceError, and so does a text node
  compared with itself. The call returns only where the rule is decided before that
  test, as for two different keys.
\<close>

theorem sameVnode_raises:
  "sameVnode ex_backend (Some (ex_li 11 ''a'' (Some 1))) (Some (ex_li 31 ''a'' None))
     = Inl ReferenceError
   \<and> sameVnode ex_backend (Some ex_text) (Some ex_text) = Inl ReferenceError
   \<and> sameVnode ex_backend (Some (ex_li 11 ''a'' (Some 1))) (Some (ex_li 12 ''b'' None))
     = Inr False"
  by (simp add: sameVnode_agreeing sameVnode_other_key ex_li_def ex_node_def ex_text_def)

text \<open>
  C9. By the specification a call \<open>patch(oldVnode, undefined)\<close> with a defined old node
  invokes the destroy hooks over the old node's subtree, touches no element and
  returns \<open>undefined\<close>. As the file is written, a backend without modules yields a
  patch function, and that call raises a ReferenceError at \<open>isDef(oldVnode)\<close> before
  any hook is invoked: the effects are those before the call. For a backend with a
  module, \<open>createPatchFunction\<close> itself raises the error and returns no patch
  function.
\<close>

theorem patch_raises:
  "createPatchFunction ex_backend = Inr (\<lambda>h. [])
   \<and> patch ex_backend (\<lambda>h. []) rest (Some ex_parent) None ex_world
       = (Inl ReferenceError, ex_world)
   \<and> createPatchFunction ex_transition = Inl ReferenceError"
  by (simp add: createPatchFunction_no_modules createPatchFunction_raises patch_def
      isUndef_returns of_option_def isDef_of_raises ex_backend_def ex_transition_def)

text \<open>
  C6. By the specification the removal of a node invokes its destroy hooks and its
  remove callbacks, and detaches the element when the countdown of the remove listeners
  has reached zero. As the file is written \<open>removeVnodes\<close> raises a ReferenceError at
  \<open>isDef(ch)\<close> for the first node of its range: for an element with a destroy hook and
  two children, and for a text node, no hook or callback is invoked and nothing is
  detached.
\<close>

theorem removeVnodes_raises:
  "removeVnodes ex_backend (\<lambda>h. []) (Some 100) [Some ex_parent] 0 0 ex_world
     = (Inl ReferenceError, ex_world)
   \<and> removeVnodes ex_backend (\<lambda>h. []) (Some 100) [Some ex_text] 0 0 ex_world
     = (Inl ReferenceError, ex_world)"
  by (simp add: removeVnodes_def removeVnode_at_raises upto.simps)

text \<open>
  C2. By the specification, when none of the four cursor comparisons matches, the key of
  the new start node is looked up in a map of the old keys that is built on first use,
  the node is mounted or an old node is patched and moved, and the new start cursor
  advances. As the file is written the branch cannot get that far. With old children
  keyed \<open>a, b, c\<close> and new children keyed \<open>d, e\<close> no comparison matches, and in a
  production build the branch is entered and raises a ReferenceError while the map is
  built, at \<open>isDef(key)\<close> in \<open>createKeyToOldIdx\<close>: nothing is mounted, patched or
  moved, and no cursor has advanced. Outside production the call raises before the
  loop is entered.
\<close>

theorem lookup_branch_raises:
  "updateChildren ex_production (\<lambda>h. []) 100 ex_old ex_new False ex_world
     = (Inl ReferenceError, uc_init ex_old ex_new ex_world)
   \<and> uc_lookup_branch ex_production 100 True (uc_init ex_old ex_new ex_world)
     = (Inl ReferenceError, uc_init ex_old ex_new ex_world)
   \<and> fst (updateChildren ex_backend (\<lambda>h. []) 100 ex_old ex_new False ex_world)
     = Inl ReferenceError"
  by (simp add: updateChildren_def ex_production_def ex_backend_def uc_eval ex_nodes
      createKeyToOldIdx_raises checkDuplicateKeys_raises)

text \<open>
  C8. By the specification two children with the same key produce a warning, nothing is
  thrown, the map of the old keys keeps the last index of a key that occurs twice, and
  the list diff goes on. As the file is written, for children keyed \<open>b, b, d\<close> the
  check \<open>checkDuplicateKeys\<close> raises a ReferenceError at \<open>isDef(key)\<close> on the first
  child, before any warning; \<open>createKeyToOldIdx\<close> on the same children raises it
  before any index is stored; and \<open>updateChildren\<close> with these new children ends with
  that error, with no effect on the render target.
\<close>

theorem duplicate_keys_raise:
  "checkDuplicateKeys ex_backend ex_new_dup ex_world = (Inl ReferenceError, ex_world)
   \<and> createKeyToOldIdx ex_backend (map Some ex_new_dup) 0 2 = Inl ReferenceError
   \<and> updateChildren ex_backend (\<lambda>h. []) 100 ex_old ex_new_dup False ex_world
     = (Inl ReferenceError, uc_init ex_old ex_new_dup ex_world)"
  by (simp add: updateChildren_def checkDuplicateKeys_raises createKeyToOldIdx_raises
      ex_backend_def ex_new_dup_def slot_get_def arr_get_def)

end
